theory Spec2Isabelle
  imports Main "HOL-Library.Word"
begin

unbundle bit_operations_syntax

section \<open>Constants of comms\_wifi.cpp\<close>

text \<open>
  The retry counts are \<open>uint16_t\<close> in the source; they are only compared with counters
  that stay below them, so they are natural numbers or integers here. The event-group bits
  are \<open>BIT0\<close> and \<open>BIT1\<close> of a 32-bit \<open>EventBits_t\<close>; timestamps are \<open>uint32_t\<close>.
  \<open>kMsPerSec\<close> is declared outside the sources at hand; the statistics are updated
  once per 1000 ms. \<open>ENOMEM\<close> is \<open>errno\<close> 12, as the comment in the source says.
\<close>

definition kWiFiNumRetries :: nat where
  "kWiFiNumRetries = 3"

definition kWiFiRetryWaitTimeMs :: nat where
  "kWiFiRetryWaitTimeMs = 100"

definition kWiFiStaMaxNumReconnectAttempts :: int where
  "kWiFiStaMaxNumReconnectAttempts = 5"

definition kWiFiTCPSocketReconnectIntervalMs :: "32 word" where
  "kWiFiTCPSocketReconnectIntervalMs = 5000"

definition kMsPerSec :: "32 word" where
  "kMsPerSec = 1000"

definition WIFI_CONNECTED_BIT :: "32 word" where
  "WIFI_CONNECTED_BIT = 1"

definition WIFI_FAIL_BIT :: "32 word" where
  "WIFI_FAIL_BIT = 2"

definition ENOMEM :: int where
  "ENOMEM = 12"

section \<open>Data\<close>

type_synonym mac = "8 word list"

text \<open>A FreeRTOS queue of fixed capacity, holding its items by value, oldest first.\<close>

record 'a queue =
  items :: "'a list"
  capacity :: nat

definition pdTRUE :: int where
  "pdTRUE = 1"

definition errQUEUE_FULL :: int where
  "errQUEUE_FULL = 0"

text \<open>\<open>xQueueSend\<close> with a zero timeout: the item is appended unless the queue is full.\<close>

definition xQueueSend :: "'a queue \<Rightarrow> 'a \<Rightarrow> int \<times> 'a queue" where
  "xQueueSend q x =
     (if length (items q) < capacity q then (pdTRUE, q\<lparr>items := items q @ [x]\<rparr>)
      else (errQUEUE_FULL, q))"

definition xQueueReset :: "'a queue \<Rightarrow> 'a queue" where
  "xQueueReset q = q\<lparr>items := []\<rparr>"

text \<open>\<open>xQueueReceive\<close>: the oldest item, or nothing when the queue is empty.\<close>

definition xQueueReceive :: "'a queue \<Rightarrow> ('a \<times> 'a queue) option" where
  "xQueueReceive q =
     (case items q of [] \<Rightarrow> None | x # xs \<Rightarrow> Some (x, q\<lparr>items := xs\<rparr>))"

text \<open>The event group: bits are set with OR and cleared with AND NOT.\<close>

definition xEventGroupSetBits :: "32 word \<Rightarrow> 32 word \<Rightarrow> 32 word" where
  "xEventGroupSetBits g b = g OR b"

definition xEventGroupClearBits :: "32 word \<Rightarrow> 32 word \<Rightarrow> 32 word" where
  "xEventGroupClearBits g b = g AND NOT b"

text \<open>
  A message for the access-point clients (\<open>data\<close>, \<open>len\<close>, \<open>port\<close>), and a slot of the
  client table. The broadcaster reads \<open>active\<close> and \<open>ip.addr\<close> of a slot; the
  slot's declaration is outside the sources at hand, and it holds the client's hardware
  address as well.
\<close>

record NetworkMessage =
  data :: "8 word list"
  len :: nat
  port :: "16 word"

record NetworkClient =
  active :: bool
  ip_addr :: "32 word"
  client_mac :: mac

text \<open>
  The members of \<open>CommsManager\<close> that comms\_wifi.cpp reads or writes. The width \<open>'w\<close> of
  the per-feed message counters and the packet type \<open>'p\<close> are declared outside the
  sources at hand and stay parameters. The members' trailing underscores are dropped.
\<close>

record (overloaded) ('w, 'p) CommsManager =
  wifi_ap_enabled :: bool
  wifi_sta_enabled :: bool
  wifi_event_group :: "32 word"
  wifi_sta_has_ip :: bool
  wifi_was_initialized :: bool
  ip_event_handler_was_initialized :: bool
  run_wifi_ap_task :: bool
  run_wifi_sta_task :: bool
  wifi_clients_list :: "NetworkClient list"
  wifi_ap_message_queue :: "NetworkMessage queue"
  wifi_sta_decoded_transponder_packet_queue :: "'p queue"
  feed_mps :: "'w word list"
  feed_mps_counter :: "'w word list"
  feed_mps_last_update_timestamp_ms :: "32 word"

text \<open>
  \<open>s_retry_num\<close> is a \<open>static int\<close> local to \<open>WiFiEventHandler\<close>: it lives as long as the
  program and no other function can name it. It is kept beside the manager's members, so
  that every other function, which takes and returns a \<open>CommsManager\<close> only, cannot
  touch it.
\<close>

record (overloaded) ('w, 'p) firmware =
  s_retry_num :: int
  comms_manager :: "('w, 'p) CommsManager"

section \<open>Effects and outcomes\<close>

text \<open>Calls into the ESP-IDF driver that the source wraps in \<open>ESP_ERROR_CHECK\<close> or \<open>assert\<close>.\<close>

datatype wifi_mode_t = WIFI_MODE_STA | WIFI_MODE_AP | WIFI_MODE_APSTA

datatype esp_call =
    esp_netif_create_default_wifi_ap
  | esp_netif_create_default_wifi_sta
  | esp_netif_set_hostname
  | esp_wifi_init
  | esp_event_handler_register
  | esp_wifi_set_mode wifi_mode_t
  | esp_wifi_set_config_ap
  | esp_wifi_set_config_sta
  | esp_wifi_stop
  | esp_wifi_start
  | esp_wifi_connect

datatype dest_addr = Resolved "32 word" | Literal string

text \<open>What a function does to the world outside the manager, in the order it does it.\<close>

datatype effect =
    EspCall esp_call
  | EventGroupSetBits "32 word"
  | EventGroupClearBits "32 word"
  | TaskCreate string
  | SocketCreate int
  | SocketClose int
  | SocketConnect int dest_addr "16 word"
  | SocketSend int "8 word list"
  | SocketSendTo "32 word" "16 word" "8 word list" nat
  | TaskDelayMs nat
  | EspRestart

text \<open>
  A failed \<open>ESP_ERROR_CHECK\<close> or \<open>assert\<close> aborts the program, and so does
  \<open>esp_restart\<close>: the call does not return and there is no state afterwards. A call
  that waits with \<open>portMAX_DELAY\<close> for something that never comes is blocked for good.
\<close>

datatype 'a outcome = is_Abort: Abort | is_Blocked: Blocked | is_Return: Return (returned: 'a)

section \<open>The WiFi event handler\<close>

datatype wifi_event =
    WIFI_EVENT_AP_STACONNECTED mac nat
  | WIFI_EVENT_AP_STADISCONNECTED mac nat
  | WIFI_EVENT_STA_START
  | WIFI_EVENT_STA_DISCONNECTED nat
  | WIFI_EVENT_STA_CONNECTED
  | WIFI_EVENT_OTHER int

text \<open>
  \<open>WiFiRemoveClient\<close> is a member function whose body is not in the sources: the handler
  takes it as the parameter \<open>rm\<close>. \<open>ok\<close> tells which driver calls return \<open>ESP_OK\<close>.
  The \<open>switch\<close> has no default: any other event id does nothing.
\<close>

fun WiFiEventHandler ::
  "(('w::len, 'p) CommsManager \<Rightarrow> mac \<Rightarrow> ('w, 'p) CommsManager) \<Rightarrow> (esp_call \<Rightarrow> bool) \<Rightarrow>
   wifi_event \<Rightarrow> ('w, 'p) firmware \<Rightarrow> effect list \<times> ('w, 'p) firmware outcome" where
  "WiFiEventHandler rm ok (WIFI_EVENT_AP_STACONNECTED m aid) s = ([], Return s)"
| "WiFiEventHandler rm ok (WIFI_EVENT_AP_STADISCONNECTED m aid) s =
     ([], Return (s\<lparr>comms_manager := rm (comms_manager s) m\<rparr>))"
| "WiFiEventHandler rm ok WIFI_EVENT_STA_START s =
     ([EspCall esp_wifi_connect], if ok esp_wifi_connect then Return s else Abort)"
| "WiFiEventHandler rm ok (WIFI_EVENT_STA_DISCONNECTED reason) s =
     (let c = (comms_manager s)
            \<lparr>wifi_event_group :=
               xEventGroupClearBits (wifi_event_group (comms_manager s)) WIFI_CONNECTED_BIT,
             wifi_sta_has_ip := False\<rparr>
      in if s_retry_num s < kWiFiStaMaxNumReconnectAttempts then
           ([EventGroupClearBits WIFI_CONNECTED_BIT, EspCall esp_wifi_connect],
            if ok esp_wifi_connect
            then Return (s\<lparr>s_retry_num := s_retry_num s + 1, comms_manager := c\<rparr>)
            else Abort)
         else
           ([EventGroupClearBits WIFI_CONNECTED_BIT, EventGroupSetBits WIFI_FAIL_BIT],
            Return (s\<lparr>comms_manager :=
               c\<lparr>wifi_event_group := xEventGroupSetBits (wifi_event_group c) WIFI_FAIL_BIT\<rparr>\<rparr>)))"
| "WiFiEventHandler rm ok WIFI_EVENT_STA_CONNECTED s =
     ([EventGroupSetBits WIFI_CONNECTED_BIT],
      Return (s\<lparr>comms_manager := (comms_manager s)
         \<lparr>wifi_event_group :=
            xEventGroupSetBits (wifi_event_group (comms_manager s)) WIFI_CONNECTED_BIT\<rparr>\<rparr>))"
| "WiFiEventHandler rm ok (WIFI_EVENT_OTHER n) s = ([], Return s)"

text \<open>
  The event loop hands the handler one event after the other; each comes with the driver's
  answers for that call. An abort ends the run.
\<close>

fun handle_events ::
  "(('w::len, 'p) CommsManager \<Rightarrow> mac \<Rightarrow> ('w, 'p) CommsManager) \<Rightarrow>
   ((esp_call \<Rightarrow> bool) \<times> wifi_event) list \<Rightarrow> ('w, 'p) firmware \<Rightarrow>
   effect list \<times> ('w, 'p) firmware outcome" where
  "handle_events rm [] s = ([], Return s)"
| "handle_events rm ((ok, e) # es) s =
     (case WiFiEventHandler rm ok e s of
        (fx, Abort) \<Rightarrow> (fx, Abort)
      | (fx, Blocked) \<Rightarrow> (fx, Blocked)
      | (fx, Return s') \<Rightarrow>
          (case handle_events rm es s' of (fx', r) \<Rightarrow> (fx @ fx', r)))"

text \<open>The events that are \<open>WIFI_EVENT_STA_DISCONNECTED\<close>.\<close>

fun sta_disconnected :: "wifi_event \<Rightarrow> bool" where
  "sta_disconnected (WIFI_EVENT_STA_DISCONNECTED r) = True"
| "sta_disconnected _ = False"

text \<open>
  Of a trace, the reconnect attempts and the settings of the failure bit, in order.
\<close>

definition retry_trace :: "effect list \<Rightarrow> effect list" where
  "retry_trace fx =
     filter (\<lambda>e. e = EspCall esp_wifi_connect \<or> e = EventGroupSetBits WIFI_FAIL_BIT) fx"

definition fail_signalled :: "('w::len, 'p) CommsManager \<Rightarrow> bool" where
  "fail_signalled c = (wifi_event_group c AND WIFI_FAIL_BIT \<noteq> 0)"

section \<open>The access-point broadcaster\<close>

text \<open>
  The retry loop around \<open>sendto\<close>. \<open>rs k\<close> is what the \<open>k\<close>-th call returns and the
  \<open>errno\<close> it leaves; \<open>errno\<close> is read only after a negative return. The result is the
  trace, the last return value and the value of \<open>num_tries\<close> after the loop. The delay
  is kept in milliseconds.
\<close>

function sendto_loop ::
  "effect \<Rightarrow> (nat \<Rightarrow> int \<times> int) \<Rightarrow> nat \<Rightarrow> int \<Rightarrow> effect list \<times> int \<times> nat" where
  "sendto_loop call rs num_tries ret =
     (if num_tries < kWiFiNumRetries then
        (if fst (rs num_tries) \<ge> 0 \<or> snd (rs num_tries) \<noteq> ENOMEM
         then ([call], fst (rs num_tries), num_tries)
         else (call # TaskDelayMs kWiFiRetryWaitTimeMs #
                 fst (sendto_loop call rs (num_tries + 1) (fst (rs num_tries))),
               snd (sendto_loop call rs (num_tries + 1) (fst (rs num_tries)))))
      else ([], ret, num_tries))"
  by pat_completeness auto
termination
  by (relation "measure (\<lambda>(call, rs, num_tries, ret). kWiFiNumRetries - num_tries)") auto

declare sendto_loop.simps [simp del]

text \<open>An answer of \<open>sendto\<close> that the loop retries: a negative return with \<open>errno\<close> ENOMEM.\<close>

definition enomem_failure :: "int \<times> int \<Rightarrow> bool" where
  "enomem_failure answer = (fst answer < 0 \<and> snd answer = ENOMEM)"

text \<open>One slot of the client table: an inactive slot is skipped.\<close>

definition send_to_client ::
  "NetworkMessage \<Rightarrow> (nat \<Rightarrow> int \<times> int) \<Rightarrow> NetworkClient \<Rightarrow> effect list \<times> int \<times> nat" where
  "send_to_client message rs cl =
     (if active cl
      then sendto_loop (SocketSendTo (ip_addr cl) (port message) (data message) (len message)) rs 0 0
      else ([], 0, 0))"

text \<open>
  The loop over the table, slot \<open>i\<close> first; \<open>rss i\<close> are the answers of \<open>sendto\<close> for slot
  \<open>i\<close>. The table has \<open>kWiFiMaxNumClients\<close> slots. The result lists, per slot, what
  \<open>send_to_client\<close> gave.
\<close>

fun send_to_clients ::
  "NetworkMessage \<Rightarrow> (nat \<Rightarrow> nat \<Rightarrow> int \<times> int) \<Rightarrow> nat \<Rightarrow> NetworkClient list \<Rightarrow>
   (effect list \<times> int \<times> nat) list" where
  "send_to_clients message rss i [] = []"
| "send_to_clients message rss i (cl # cls) =
     send_to_client message (rss i) cl # send_to_clients message rss (Suc i) cls"

text \<open>
  One turn of the task's loop: with \<open>portMAX_DELAY\<close> the receive waits for a message, so
  on an empty queue nothing happens. The lock taken around the loop over the table is
  left out.
\<close>

definition WiFiAccessPointTask_iteration ::
  "(nat \<Rightarrow> nat \<Rightarrow> int \<times> int) \<Rightarrow> ('w::len, 'p) CommsManager \<Rightarrow>
   effect list \<times> ('w, 'p) CommsManager" where
  "WiFiAccessPointTask_iteration rss c =
     (case xQueueReceive (wifi_ap_message_queue c) of
        None \<Rightarrow> ([], c)
      | Some (message, q) \<Rightarrow>
          (concat (map fst (send_to_clients message rss 0 (wifi_clients_list c))),
           c\<lparr>wifi_ap_message_queue := q\<rparr>))"

text \<open>
  The task: it gives up when the socket cannot be created, runs the loop while
  \<open>run_wifi_ap_task_\<close> is set (here: over the turns given), and closes the socket.
\<close>

fun WiFiAccessPointTask_loop ::
  "(nat \<Rightarrow> nat \<Rightarrow> int \<times> int) list \<Rightarrow> ('w::len, 'p) CommsManager \<Rightarrow>
   effect list \<times> ('w, 'p) CommsManager" where
  "WiFiAccessPointTask_loop [] c = ([], c)"
| "WiFiAccessPointTask_loop (rss # turns) c =
     (if run_wifi_ap_task c then
        (case WiFiAccessPointTask_iteration rss c of
           (fx, c') \<Rightarrow> (case WiFiAccessPointTask_loop turns c' of (fx', c'') \<Rightarrow> (fx @ fx', c'')))
      else ([], c))"

definition WiFiAccessPointTask ::
  "int \<Rightarrow> (nat \<Rightarrow> nat \<Rightarrow> int \<times> int) list \<Rightarrow> ('w::len, 'p) CommsManager \<Rightarrow>
   effect list \<times> ('w, 'p) CommsManager" where
  "WiFiAccessPointTask sock turns c =
     (if sock < 0 then ([SocketCreate sock], c)
      else (case WiFiAccessPointTask_loop turns c of
              (fx, c') \<Rightarrow> (SocketCreate sock # fx @ [SocketClose sock], c')))"

section \<open>The two enqueue operations\<close>

definition WiFiStationSendDecodedTransponderPacket ::
  "'p \<Rightarrow> ('w::len, 'p) CommsManager \<Rightarrow> bool \<times> ('w, 'p) CommsManager" where
  "WiFiStationSendDecodedTransponderPacket decoded_packet c =
     (if \<not> run_wifi_sta_task c then (False, c)
      else (case xQueueSend (wifi_sta_decoded_transponder_packet_queue c) decoded_packet of
              (err, q) \<Rightarrow>
                if err = errQUEUE_FULL
                then (False, c\<lparr>wifi_sta_decoded_transponder_packet_queue := xQueueReset q\<rparr>)
                else if err \<noteq> pdTRUE
                then (False, c\<lparr>wifi_sta_decoded_transponder_packet_queue := q\<rparr>)
                else (True, c\<lparr>wifi_sta_decoded_transponder_packet_queue := q\<rparr>)))"

definition WiFiAccessPointSendMessageToAllStations ::
  "NetworkMessage \<Rightarrow> ('w::len, 'p) CommsManager \<Rightarrow> bool \<times> ('w, 'p) CommsManager" where
  "WiFiAccessPointSendMessageToAllStations message c =
     (if \<not> run_wifi_ap_task c then (False, c)
      else (case xQueueSend (wifi_ap_message_queue c) message of
              (err, q) \<Rightarrow>
                if err = errQUEUE_FULL
                then (False, c\<lparr>wifi_ap_message_queue := xQueueReset q\<rparr>)
                else if err \<noteq> pdTRUE
                then (False, c\<lparr>wifi_ap_message_queue := q\<rparr>)
                else (True, c\<lparr>wifi_ap_message_queue := q\<rparr>)))"

section \<open>The feed forwarder\<close>

text \<open>\<open>isalpha\<close> in the C locale, and the scan of \<open>IsNotIPAddress\<close> for a letter.\<close>

definition isalpha :: "char \<Rightarrow> bool" where
  "isalpha ch = (let n = (of_char ch :: nat) in (65 \<le> n \<and> n \<le> 90) \<or> (97 \<le> n \<and> n \<le> 122))"

fun IsNotIPAddress :: "string \<Rightarrow> bool" where
  "IsNotIPAddress [] = False"
| "IsNotIPAddress (p # uri) = (if isalpha p then True else IsNotIPAddress uri)"

text \<open>
  \<open>ResolveURIToIP\<close>: the lookup \<open>getaddrinfo\<close> answers with an error code and a result
  (\<open>None\<close> for \<open>NULL\<close>); the address found is handed back.
\<close>

definition ResolveURIToIP :: "int \<times> 32 word option \<Rightarrow> 32 word option" where
  "ResolveURIToIP answer =
     (case answer of (err, res) \<Rightarrow> if err \<noteq> 0 \<or> res = None then None else res)"

text \<open>
  The source names \<open>kBeast\<close> and \<open>kBeastRaw\<close>; every other value of the
  enumeration, declared outside the sources at hand, falls to the \<open>default\<close> case.
\<close>

datatype ReportingProtocol = kNoReports | kBeast | kBeastRaw | kOtherProtocol nat

text \<open>The entries of \<open>settings_manager.settings\<close> for one feed.\<close>

record feed_settings =
  cfg_is_active :: bool
  cfg_uri :: string
  cfg_port :: "16 word"
  cfg_protocol :: ReportingProtocol
  cfg_receiver_id :: "8 word list"

text \<open>
  What the outside answers to one feed in one turn of the loop: the clock, \<open>socket\<close>,
  \<open>getaddrinfo\<close>, \<open>connect\<close> and \<open>send\<close>.
\<close>

record feed_env =
  now_ms :: "32 word"
  socket_ret :: int
  getaddrinfo_ret :: "int \<times> 32 word option"
  connect_ret :: int
  send_ret :: int

text \<open>
  The entries of the task's three arrays for one feed: \<open>feed_sock[i]\<close>,
  \<open>feed_sock_is_connected[i]\<close> and \<open>feed_sock_last_connect_timestamp_ms[i]\<close>.
\<close>

record feed_slot =
  sock :: int
  is_connected :: bool
  last_connect_timestamp_ms :: "32 word"

text \<open>
  Opening the connection of a feed that is active and not connected. The flag returned
  says whether the body goes on to send (\<open>False\<close> stands for \<open>continue\<close>).
\<close>

definition connect_to ::
  "feed_settings \<Rightarrow> feed_env \<Rightarrow> dest_addr \<Rightarrow> feed_slot \<Rightarrow> effect list \<times> feed_slot \<times> bool" where
  "connect_to cfg env dest sl =
     (if connect_ret env \<noteq> 0
      then ([SocketCreate (sock sl), SocketConnect (sock sl) dest (cfg_port cfg),
             SocketClose (sock sl)],
            sl\<lparr>is_connected := False\<rparr>, False)
      else ([SocketCreate (sock sl), SocketConnect (sock sl) dest (cfg_port cfg)],
            sl\<lparr>is_connected := True\<rparr>, True))"

definition open_feed_socket ::
  "feed_settings \<Rightarrow> feed_env \<Rightarrow> feed_slot \<Rightarrow> effect list \<times> feed_slot \<times> bool" where
  "open_feed_socket cfg env sl =
     (if now_ms env - last_connect_timestamp_ms sl \<le> kWiFiTCPSocketReconnectIntervalMs
      then ([], sl, False)
      else
        (let sl1 = sl\<lparr>last_connect_timestamp_ms := now_ms env,
                      sock := socket_ret env\<rparr>
         in if sock sl1 \<le> 0 then ([SocketCreate (sock sl1)], sl1, False)
            else if IsNotIPAddress (cfg_uri cfg) then
              (case ResolveURIToIP (getaddrinfo_ret env) of
                 None \<Rightarrow>
                   ([SocketCreate (sock sl1), SocketClose (sock sl1)],
                    sl1\<lparr>is_connected := False\<rparr>, False)
               | Some ip \<Rightarrow> connect_to cfg env (Resolved ip) sl1)
            else connect_to cfg env (Literal (cfg_uri cfg)) sl1))"

text \<open>
  Sending the packet. \<open>valid\<close> is \<open>DecodedTransponderPacket::IsValid\<close> and \<open>codec\<close> is
  \<open>TransponderPacketToBeastFramePrependReceiverID\<close>, giving the bytes of the frame for a
  packet and a receiver id; both are declared outside the sources at hand. \<open>cnt\<close> is
  \<open>feed_mps_counter_[i]\<close>.
\<close>

definition send_beast ::
  "('p \<Rightarrow> 8 word list \<Rightarrow> 8 word list) \<Rightarrow> feed_settings \<Rightarrow> 'p \<Rightarrow> feed_env \<Rightarrow>
   feed_slot \<times> 'w::len word \<Rightarrow> effect list \<times> feed_slot \<times> 'w word" where
  "send_beast codec cfg decoded_packet env st =
     (case st of (sl, cnt) \<Rightarrow>
        if send_ret env < 0
        then ([SocketSend (sock sl) (codec decoded_packet (cfg_receiver_id cfg)),
               SocketClose (sock sl)],
              sl\<lparr>is_connected := False\<rparr>, cnt)
        else ([SocketSend (sock sl) (codec decoded_packet (cfg_receiver_id cfg))],
              sl, cnt + 1))"

definition send_packet ::
  "('p \<Rightarrow> bool) \<Rightarrow> ('p \<Rightarrow> 8 word list \<Rightarrow> 8 word list) \<Rightarrow> feed_settings \<Rightarrow> 'p \<Rightarrow>
   feed_env \<Rightarrow> feed_slot \<times> 'w::len word \<Rightarrow> effect list \<times> feed_slot \<times> 'w word" where
  "send_packet valid codec cfg decoded_packet env st =
     (case cfg_protocol cfg of
        kBeast \<Rightarrow>
          if \<not> valid decoded_packet then ([], st)
          else send_beast codec cfg decoded_packet env st
      | kBeastRaw \<Rightarrow> send_beast codec cfg decoded_packet env st
      | _ \<Rightarrow> ([], st))"

text \<open>The body of the loop over the feeds, for one feed.\<close>

definition feed_slot_step ::
  "('p \<Rightarrow> bool) \<Rightarrow> ('p \<Rightarrow> 8 word list \<Rightarrow> 8 word list) \<Rightarrow> feed_settings \<Rightarrow> 'p \<Rightarrow>
   feed_env \<Rightarrow> feed_slot \<times> 'w::len word \<Rightarrow> effect list \<times> feed_slot \<times> 'w word" where
  "feed_slot_step valid codec cfg decoded_packet env st =
     (case st of (sl, cnt) \<Rightarrow>
        if \<not> cfg_is_active cfg then
          (if is_connected sl
           then ([SocketClose (sock sl)], sl\<lparr>is_connected := False\<rparr>, cnt)
           else ([], sl, cnt))
        else if \<not> is_connected sl then
          (case open_feed_socket cfg env sl of
             (fx, sl', go) \<Rightarrow>
               if go then
                 (case send_packet valid codec cfg decoded_packet env (sl', cnt) of
                    (fx', st') \<Rightarrow> (fx @ fx', st'))
               else (fx, sl', cnt))
        else send_packet valid codec cfg decoded_packet env (sl, cnt))"

text \<open>
  The arrays as the source has them: the feed settings, and the three arrays local to the
  task. \<open>kMaxNumFeeds\<close>, declared outside the sources at hand, is the parameter \<open>n\<close> of
  the loops; every array has \<open>n\<close> entries.
\<close>

record Settings =
  feed_is_active :: "bool list"
  feed_uris :: "string list"
  feed_ports :: "16 word list"
  feed_protocols :: "ReportingProtocol list"
  feed_receiver_ids :: "8 word list list"

record sta_task_locals =
  feed_sock :: "int list"
  feed_sock_is_connected :: "bool list"
  feed_sock_last_connect_timestamp_ms :: "32 word list"

definition settings_at :: "Settings \<Rightarrow> nat \<Rightarrow> feed_settings" where
  "settings_at settings i =
     \<lparr>cfg_is_active = feed_is_active settings ! i, cfg_uri = feed_uris settings ! i,
      cfg_port = feed_ports settings ! i, cfg_protocol = feed_protocols settings ! i,
      cfg_receiver_id = feed_receiver_ids settings ! i\<rparr>"

definition slot_at :: "sta_task_locals \<Rightarrow> nat \<Rightarrow> feed_slot" where
  "slot_at l i =
     \<lparr>sock = feed_sock l ! i, is_connected = feed_sock_is_connected l ! i,
      last_connect_timestamp_ms = feed_sock_last_connect_timestamp_ms l ! i\<rparr>"

definition put_slot :: "nat \<Rightarrow> feed_slot \<Rightarrow> sta_task_locals \<Rightarrow> sta_task_locals" where
  "put_slot i sl l =
     \<lparr>feed_sock = (feed_sock l)[i := sock sl],
      feed_sock_is_connected = (feed_sock_is_connected l)[i := is_connected sl],
      feed_sock_last_connect_timestamp_ms =
        (feed_sock_last_connect_timestamp_ms l)[i := last_connect_timestamp_ms sl]\<rparr>"

definition locals_wf :: "nat \<Rightarrow> sta_task_locals \<Rightarrow> bool" where
  "locals_wf n l =
     (length (feed_sock l) = n \<and> length (feed_sock_is_connected l) = n \<and>
      length (feed_sock_last_connect_timestamp_ms l) = n)"

text \<open>
  The loop \<open>for (i = 0; i < kMaxNumFeeds; i++)\<close>, with \<open>k\<close> feeds still to go from feed
  \<open>i\<close> on. It returns the trace of every feed it went through, in order.
\<close>

fun feeds_loop ::
  "('p \<Rightarrow> bool) \<Rightarrow> ('p \<Rightarrow> 8 word list \<Rightarrow> 8 word list) \<Rightarrow> Settings \<Rightarrow> 'p \<Rightarrow>
   (nat \<Rightarrow> feed_env) \<Rightarrow> nat \<Rightarrow> nat \<Rightarrow> sta_task_locals \<times> 'w::len word list \<Rightarrow>
   effect list list \<times> sta_task_locals \<times> 'w word list" where
  "feeds_loop valid codec settings decoded_packet envs 0 i st = ([], st)"
| "feeds_loop valid codec settings decoded_packet envs (Suc k) i (l, cnts) =
     (case feed_slot_step valid codec (settings_at settings i) decoded_packet (envs i)
             (slot_at l i, cnts ! i) of
        (fx, sl, cnt) \<Rightarrow>
          (case feeds_loop valid codec settings decoded_packet envs k (Suc i)
                  (put_slot i sl l, cnts[i := cnt]) of
             (fxs, st') \<Rightarrow> (fx # fxs, st')))"

text \<open>The statistics at the top of the loop (the log line is left out).\<close>

definition update_feed_stats ::
  "32 word \<Rightarrow> ('w::len, 'p) CommsManager \<Rightarrow> ('w, 'p) CommsManager" where
  "update_feed_stats timestamp_ms c =
     (if timestamp_ms - feed_mps_last_update_timestamp_ms c > kMsPerSec
      then c\<lparr>feed_mps := feed_mps_counter c,
             feed_mps_counter := map (\<lambda>x. 0) (feed_mps_counter c),
             feed_mps_last_update_timestamp_ms := timestamp_ms\<rparr>
      else c)"

text \<open>
  One turn of \<open>while (run_wifi_sta_task_)\<close>: the statistics, then a packet from the queue
  (none within the timeout: \<open>continue\<close>), then the feeds.
\<close>

definition WiFiStationTask_iteration ::
  "('p \<Rightarrow> bool) \<Rightarrow> ('p \<Rightarrow> 8 word list \<Rightarrow> 8 word list) \<Rightarrow> nat \<Rightarrow> Settings \<Rightarrow>
   32 word \<Rightarrow> (nat \<Rightarrow> feed_env) \<Rightarrow> ('w::len, 'p) CommsManager \<times> sta_task_locals \<Rightarrow>
   effect list list \<times> ('w, 'p) CommsManager \<times> sta_task_locals" where
  "WiFiStationTask_iteration valid codec n settings timestamp_ms envs st =
     (case st of (c, l) \<Rightarrow>
        (let c1 = update_feed_stats timestamp_ms c in
         case xQueueReceive (wifi_sta_decoded_transponder_packet_queue c1) of
           None \<Rightarrow> ([], c1, l)
         | Some (decoded_packet, q) \<Rightarrow>
             (case feeds_loop valid codec settings decoded_packet envs n 0
                     (l, feed_mps_counter c1) of
                (fxs, l', cnts) \<Rightarrow>
                  (fxs,
                   c1\<lparr>wifi_sta_decoded_transponder_packet_queue := q,
                      feed_mps_counter := cnts\<rparr>,
                   l'))))"

text \<open>Leaving the task: every feed still marked connected has its socket closed.\<close>

fun close_all_sockets :: "nat \<Rightarrow> nat \<Rightarrow> sta_task_locals \<Rightarrow> effect list list \<times> sta_task_locals" where
  "close_all_sockets 0 i l = ([], l)"
| "close_all_sockets (Suc k) i l =
     (if feed_sock_is_connected l ! i then
        (case close_all_sockets k (Suc i)
                (l\<lparr>feed_sock_is_connected := (feed_sock_is_connected l)[i := False]\<rparr>) of
           (fxs, l') \<Rightarrow> ([SocketClose (feed_sock l ! i)] # fxs, l'))
      else (case close_all_sockets k (Suc i) l of (fxs, l') \<Rightarrow> ([] # fxs, l')))"

text \<open>
  The task as a machine: it waits for the IP address (the delay of one tick between two
  looks at the flag is left out), then runs its loop with fresh arrays, and after the
  loop closes the sockets and ends. A step returns the trace of every feed it went
  through.
\<close>

datatype sta_phase = WaitingForIP | Running | Exited

record sta_task =
  phase :: sta_phase
  locals :: sta_task_locals

definition WiFiStationTask_step ::
  "('p \<Rightarrow> bool) \<Rightarrow> ('p \<Rightarrow> 8 word list \<Rightarrow> 8 word list) \<Rightarrow> nat \<Rightarrow> Settings \<Rightarrow>
   32 word \<Rightarrow> (nat \<Rightarrow> feed_env) \<Rightarrow> ('w::len, 'p) CommsManager \<times> sta_task \<Rightarrow>
   effect list list \<times> ('w, 'p) CommsManager \<times> sta_task" where
  "WiFiStationTask_step valid codec n settings timestamp_ms envs st =
     (case st of (c, t) \<Rightarrow>
        (case phase t of
           WaitingForIP \<Rightarrow>
             if \<not> wifi_sta_has_ip c then ([], c, t)
             else ([], c,
                   \<lparr>phase = Running,
                    locals = \<lparr>feed_sock = replicate n 0,
                              feed_sock_is_connected = replicate n False,
                              feed_sock_last_connect_timestamp_ms = replicate n 0\<rparr>\<rparr>)
         | Running \<Rightarrow>
             if run_wifi_sta_task c then
               (case WiFiStationTask_iteration valid codec n settings timestamp_ms envs
                       (c, locals t) of
                  (fxs, c', l') \<Rightarrow> (fxs, c', t\<lparr>locals := l'\<rparr>))
             else
               (case close_all_sockets n 0 (locals t) of
                  (fxs, l') \<Rightarrow> (fxs, c, \<lparr>phase = Exited, locals = l'\<rparr>))
         | Exited \<Rightarrow> ([], c, t)))"

section \<open>Initialisation and de-initialisation\<close>

text \<open>
  Driver calls made one after the other, each under \<open>ESP_ERROR_CHECK\<close> or \<open>assert\<close>:
  the trace of the calls made, and whether all of them succeeded.
\<close>

fun esp_checks :: "(esp_call \<Rightarrow> bool) \<Rightarrow> esp_call list \<Rightarrow> effect list \<times> bool" where
  "esp_checks ok [] = ([], True)"
| "esp_checks ok (call # calls) =
     (if ok call then (case esp_checks ok calls of (fx, b) \<Rightarrow> (EspCall call # fx, b))
      else ([EspCall call], False))"

text \<open>
  \<open>xEventGroupWaitBits\<close> as \<open>WiFiInit\<close> calls it (any of the bits, nothing cleared on
  exit, no timeout): of the values the event group takes from the call on, the first with
  one of the bits set is returned; if there is none the call never returns.
\<close>

definition xEventGroupWaitBits :: "32 word list \<Rightarrow> 32 word \<Rightarrow> 32 word option" where
  "xEventGroupWaitBits timeline bits_to_wait_for =
     find (\<lambda>v. v AND bits_to_wait_for \<noteq> 0) timeline"

text \<open>The driver calls \<open>WiFiInit\<close> makes before it reads the modes.\<close>

definition init_calls :: "esp_call list" where
  "init_calls =
     [esp_netif_create_default_wifi_ap, esp_netif_create_default_wifi_sta,
      esp_netif_set_hostname, esp_wifi_init, esp_event_handler_register]"

text \<open>
  \<open>WiFiInit\<close>. \<open>IPInit\<close> is a member function whose body is not in the sources: it is
  the parameter \<open>ipinit\<close>. The contents of the two configurations (names, passwords,
  channel, authentication mode) and the log lines are left out.
\<close>

definition WiFiInit ::
  "(('w::len, 'p) CommsManager \<Rightarrow> ('w, 'p) CommsManager) \<Rightarrow> (esp_call \<Rightarrow> bool) \<Rightarrow>
   32 word list \<Rightarrow> ('w, 'p) CommsManager \<Rightarrow>
   effect list \<times> (bool \<times> ('w, 'p) CommsManager) outcome" where
  "WiFiInit ipinit ok timeline c =
     (case esp_checks ok init_calls of
        (fx1, False) \<Rightarrow> (fx1, Abort)
      | (fx1, True) \<Rightarrow>
         (let c1 = (if \<not> ip_event_handler_was_initialized c then ipinit c else c);
              wifi_mode =
                (if wifi_ap_enabled c1 \<and> wifi_sta_enabled c1 then WIFI_MODE_APSTA
                 else if wifi_ap_enabled c1 then WIFI_MODE_AP
                 else WIFI_MODE_STA);
              c2 = c1\<lparr>wifi_was_initialized := True\<rparr>
          in case esp_checks ok
                    ([esp_wifi_set_mode wifi_mode] @
                     (if wifi_ap_enabled c2 then [esp_wifi_set_config_ap] else []) @
                     (if wifi_sta_enabled c2 then [esp_wifi_set_config_sta] else []) @
                     (if \<not> wifi_ap_enabled c2 \<and> \<not> wifi_sta_enabled c2 then [esp_wifi_stop]
                      else [esp_wifi_start])) of
               (fx2, False) \<Rightarrow> (fx1 @ fx2, Abort)
             | (fx2, True) \<Rightarrow>
                 if \<not> wifi_ap_enabled c2 \<and> \<not> wifi_sta_enabled c2
                 then (fx1 @ fx2, Return (True, c2))
                 else
                   (let c3 = (if wifi_ap_enabled c2 then c2\<lparr>run_wifi_ap_task := True\<rparr> else c2);
                        fx3 = fx1 @ fx2 @
                          (if wifi_ap_enabled c2 then [TaskCreate ''wifi_ap_task''] else [])
                    in if wifi_sta_enabled c3 then
                         (case xEventGroupWaitBits timeline (WIFI_CONNECTED_BIT OR WIFI_FAIL_BIT) of
                            None \<Rightarrow> (fx3, Blocked)
                          | Some bits \<Rightarrow>
                              if bits AND WIFI_CONNECTED_BIT \<noteq> 0
                              then (fx3 @ [TaskCreate ''wifi_sta_task''],
                                    Return (True, c3\<lparr>run_wifi_sta_task := True\<rparr>))
                              else if bits AND WIFI_FAIL_BIT \<noteq> 0
                              then (fx3, Return (False, c3))
                              else (fx3, Return (False, c3)))
                       else (fx3, Return (True, c3)))))"

text \<open>
  \<open>WiFiDeInit\<close>: nothing to do when the radio was never initialised; otherwise the chip
  is restarted, which does not return.
\<close>

definition WiFiDeInit ::
  "('w::len, 'p) CommsManager \<Rightarrow> effect list \<times> (bool \<times> ('w, 'p) CommsManager) outcome" where
  "WiFiDeInit c =
     (if \<not> wifi_was_initialized c then ([], Return (True, c)) else ([EspRestart], Abort))"

section \<open>The component as a whole\<close>

text \<open>
  Everything comms\_wifi.cpp can be asked to do, each with what the outside answers: an
  event for the handler, \<open>WiFiInit\<close>, \<open>WiFiDeInit\<close>, the two enqueue operations, a turn
  of the broadcaster and a step of the forwarder.
\<close>

datatype 'p operation =
    HandleEvent "esp_call \<Rightarrow> bool" wifi_event
  | Init "esp_call \<Rightarrow> bool" "32 word list"
  | DeInit
  | SendDecodedTransponderPacket 'p
  | SendMessageToAllStations NetworkMessage
  | AccessPointTurn "nat \<Rightarrow> nat \<Rightarrow> int \<times> int"
  | StationStep Settings "32 word" "nat \<Rightarrow> feed_env"

text \<open>
  The absent member functions and declarations, passed around together.
\<close>

record (overloaded) ('w, 'p) absent =
  WiFiRemoveClient :: "('w, 'p) CommsManager \<Rightarrow> mac \<Rightarrow> ('w, 'p) CommsManager"
  IPInit :: "('w, 'p) CommsManager \<Rightarrow> ('w, 'p) CommsManager"
  IsValid :: "'p \<Rightarrow> bool"
  TransponderPacketToBeastFramePrependReceiverID :: "'p \<Rightarrow> 8 word list \<Rightarrow> 8 word list"
  kMaxNumFeeds :: nat

text \<open>
  One operation on the whole state: the handler's static counter and the manager on one
  side, the forwarder task on the other. Only \<open>WiFiEventHandler\<close> is given the counter.
\<close>

fun wifi_step ::
  "('w::len, 'p) absent \<Rightarrow> 'p operation \<Rightarrow> ('w, 'p) firmware \<times> sta_task \<Rightarrow>
   (('w, 'p) firmware \<times> sta_task) outcome" where
  "wifi_step x (HandleEvent ok e) (s, t) =
     (case snd (WiFiEventHandler (WiFiRemoveClient x) ok e s) of
        Return s' \<Rightarrow> Return (s', t) | Abort \<Rightarrow> Abort | Blocked \<Rightarrow> Blocked)"
| "wifi_step x (Init ok timeline) (s, t) =
     (case snd (WiFiInit (IPInit x) ok timeline (comms_manager s)) of
        Return (b, c) \<Rightarrow> Return (s\<lparr>comms_manager := c\<rparr>, t) | Abort \<Rightarrow> Abort | Blocked \<Rightarrow> Blocked)"
| "wifi_step x DeInit (s, t) =
     (case snd (WiFiDeInit (comms_manager s)) of
        Return (b, c) \<Rightarrow> Return (s\<lparr>comms_manager := c\<rparr>, t) | Abort \<Rightarrow> Abort | Blocked \<Rightarrow> Blocked)"
| "wifi_step x (SendDecodedTransponderPacket p) (s, t) =
     Return (s\<lparr>comms_manager :=
        snd (WiFiStationSendDecodedTransponderPacket p (comms_manager s))\<rparr>, t)"
| "wifi_step x (SendMessageToAllStations m) (s, t) =
     Return (s\<lparr>comms_manager :=
        snd (WiFiAccessPointSendMessageToAllStations m (comms_manager s))\<rparr>, t)"
| "wifi_step x (AccessPointTurn rss) (s, t) =
     Return (s\<lparr>comms_manager := snd (WiFiAccessPointTask_iteration rss (comms_manager s))\<rparr>, t)"
| "wifi_step x (StationStep settings timestamp_ms envs) (s, t) =
     (case WiFiStationTask_step (IsValid x) (TransponderPacketToBeastFramePrependReceiverID x)
             (kMaxNumFeeds x) settings timestamp_ms envs (comms_manager s, t) of
        (fxs, c, t') \<Rightarrow> Return (s\<lparr>comms_manager := c\<rparr>, t'))"

fun wifi_run ::
  "('w::len, 'p) absent \<Rightarrow> 'p operation list \<Rightarrow> ('w, 'p) firmware \<times> sta_task \<Rightarrow>
   (('w, 'p) firmware \<times> sta_task) outcome" where
  "wifi_run x [] st = Return st"
| "wifi_run x (operation # ops) st =
     (case wifi_step x operation st of
        Return st' \<Rightarrow> wifi_run x ops st' | Abort \<Rightarrow> Abort | Blocked \<Rightarrow> Blocked)"

section \<open>One feed over the turns of the loop\<close>

text \<open>
  What a turn of the forwarder's loop is for one feed: the statistics may clear its
  counter; then either no packet came within the timeout and the feed is not looked at,
  or the body of the loop over the feeds runs for it.
\<close>

datatype 'p turn = StatsUpdate | NoPacket | Packet feed_settings 'p feed_env

fun slot_turn ::
  "('p \<Rightarrow> bool) \<Rightarrow> ('p \<Rightarrow> 8 word list \<Rightarrow> 8 word list) \<Rightarrow> 'p turn \<Rightarrow>
   feed_slot \<times> 'w::len word \<Rightarrow> effect list \<times> feed_slot \<times> 'w word" where
  "slot_turn valid codec StatsUpdate (sl, cnt) = ([], sl, 0)"
| "slot_turn valid codec NoPacket st = ([], st)"
| "slot_turn valid codec (Packet cfg decoded_packet env) st =
     feed_slot_step valid codec cfg decoded_packet env st"

fun slot_run ::
  "('p \<Rightarrow> bool) \<Rightarrow> ('p \<Rightarrow> 8 word list \<Rightarrow> 8 word list) \<Rightarrow> 'p turn list \<Rightarrow>
   feed_slot \<times> 'w::len word \<Rightarrow> effect list \<times> feed_slot \<times> 'w word" where
  "slot_run valid codec [] st = ([], st)"
| "slot_run valid codec (t # ts) st =
     (case slot_turn valid codec t st of
        (fx, st') \<Rightarrow> (case slot_run valid codec ts st' of (fx', st'') \<Rightarrow> (fx @ fx', st'')))"

text \<open>The turns of one iteration of the task, as feed \<open>i\<close> sees them.\<close>

definition turns_of_iteration ::
  "Settings \<Rightarrow> 32 word \<Rightarrow> (nat \<Rightarrow> feed_env) \<Rightarrow> ('w::len, 'p) CommsManager \<Rightarrow> nat \<Rightarrow> 'p turn list" where
  "turns_of_iteration settings timestamp_ms envs c i =
     (if timestamp_ms - feed_mps_last_update_timestamp_ms c > kMsPerSec then [StatsUpdate] else []) @
     [case items (wifi_sta_decoded_transponder_packet_queue c) of
        [] \<Rightarrow> NoPacket
      | decoded_packet # rest \<Rightarrow> Packet (settings_at settings i) decoded_packet (envs i)]"

text \<open>
  The sockets a trace leaves open, given those open before it: \<open>socket\<close> opens the
  descriptor it returns unless it returns a negative number, \<open>close\<close> closes.
\<close>

fun socket_effect :: "effect \<Rightarrow> int list \<Rightarrow> int list" where
  "socket_effect (SocketCreate r) os = (if r \<ge> 0 then r # os else os)"
| "socket_effect (SocketClose fd) os = remove1 fd os"
| "socket_effect e os = os"

fun open_sockets :: "effect list \<Rightarrow> int list \<Rightarrow> int list" where
  "open_sockets [] os = os"
| "open_sockets (e # fx) os = open_sockets fx (socket_effect e os)"

text \<open>At most one socket is open before the trace, after it and between any two effects.\<close>

fun at_most_one_open :: "effect list \<Rightarrow> int list \<Rightarrow> bool" where
  "at_most_one_open [] os = (length os \<le> 1)"
| "at_most_one_open (e # fx) os = (length os \<le> 1 \<and> at_most_one_open fx (socket_effect e os))"

text \<open>
  The feed's flag and the sockets open for it agree: connected with exactly its socket
  open, or not connected with none open.
\<close>

definition slot_ok :: "feed_slot \<Rightarrow> int list \<Rightarrow> bool" where
  "slot_ok sl os = (if is_connected sl then os = [sock sl] else os = [])"

text \<open>A turn in which \<open>socket\<close>, if called, does not return the descriptor 0.\<close>

fun socket_never_zero :: "'p turn \<Rightarrow> bool" where
  "socket_never_zero (Packet cfg decoded_packet env) = (socket_ret env \<noteq> 0)"
| "socket_never_zero t = True"

text \<open>What a trace holds: a call of \<open>socket\<close>, a \<open>send\<close>.\<close>

fun is_socket_create :: "effect \<Rightarrow> bool" where
  "is_socket_create (SocketCreate r) = True"
| "is_socket_create e = False"

fun is_socket_send :: "effect \<Rightarrow> bool" where
  "is_socket_send (SocketSend fd frame) = True"
| "is_socket_send e = False"

text \<open>
  A turn that comes too early for a reconnect of a feed whose last attempt was at
  \<open>t0\<close>: it has no packet, or its clock is within the interval.
\<close>

fun within_interval :: "32 word \<Rightarrow> 'p turn \<Rightarrow> bool" where
  "within_interval t0 (Packet cfg decoded_packet env) =
     (now_ms env - t0 \<le> kWiFiTCPSocketReconnectIntervalMs)"
| "within_interval t0 t = True"

text \<open>
  Iterations of the task's loop, one after the other. Between two of them the other
  tasks may have changed the manager (packets queued, counters read), so every iteration
  comes with the settings, the clock, the answers of the outside and the manager it
  finds; the three arrays are the task's own and go from one iteration to the next.
\<close>

fun WiFiStationTask_iterations ::
  "('p \<Rightarrow> bool) \<Rightarrow> ('p \<Rightarrow> 8 word list \<Rightarrow> 8 word list) \<Rightarrow> nat \<Rightarrow>
   (Settings \<times> 32 word \<times> (nat \<Rightarrow> feed_env) \<times> ('w::len, 'p) CommsManager) list \<Rightarrow>
   sta_task_locals \<Rightarrow> effect list list list \<times> sta_task_locals" where
  "WiFiStationTask_iterations valid codec n [] l = ([], l)"
| "WiFiStationTask_iterations valid codec n ((settings, timestamp_ms, envs, c) # rest) l =
     (case WiFiStationTask_iteration valid codec n settings timestamp_ms envs (c, l) of
        (fxs, c', l') \<Rightarrow>
          (case WiFiStationTask_iterations valid codec n rest l' of
             (fxss, l'') \<Rightarrow> (fxs # fxss, l'')))"

text \<open>Of the traces of these iterations, the part of feed \<open>i\<close>; and the turns feed \<open>i\<close> sees.\<close>

definition trace_of_feed :: "nat \<Rightarrow> effect list list list \<Rightarrow> effect list" where
  "trace_of_feed i fxss = concat (map (\<lambda>fxs. if fxs = [] then [] else fxs ! i) fxss)"

definition turns_of_feed ::
  "nat \<Rightarrow> (Settings \<times> 32 word \<times> (nat \<Rightarrow> feed_env) \<times> ('w::len, 'p) CommsManager) list \<Rightarrow>
   'p turn list" where
  "turns_of_feed i inputs =
     concat (map (\<lambda>(settings, timestamp_ms, envs, c).
        turns_of_iteration settings timestamp_ms envs c i) inputs)"

section \<open>The inter-chip register transport\<close>

text \<open>
  Modelled from the spec: the transport (\<open>esp32.Read\<close>, \<open>esp32.Write\<close>, the object
  dictionary behind them) is not in the sources; only its test,
  test\_spi\_coprocessor.cc, is. The spec gives \<open>Read(address) -> (value, success)\<close> and
  \<open>Write(address, value, require_ack=false) -> success\<close> over a fixed address space of
  typed values, a scalar scratch register and a structured settings block among them;
  acknowledgment is optional and, when requested, the call does not return success until
  the remote side confirms. Here the remote side holds one value per address; a call
  reaches it or not; a write that reaches it stores the value; a write reports success
  when it reached the remote side and, if acknowledgment was requested, the remote side
  confirmed; a read reports success when it reached the remote side, and then hands back
  what is stored. The settings block is \<open>sizeof(Settings)\<close> bytes, the parameter \<open>n\<close>.
\<close>

datatype Address = kAddrScratch | kAddrSettingsStruct

datatype register_value = ScratchValue "32 word" | SettingsValue "8 word list"

record ObjectDictionary =
  scratch :: "32 word"
  settings_struct :: "8 word list"

record spi_exchange =
  reached_remote :: bool
  remote_confirmed :: bool

fun fits :: "nat \<Rightarrow> Address \<Rightarrow> register_value \<Rightarrow> bool" where
  "fits n kAddrScratch (ScratchValue w) = True"
| "fits n kAddrSettingsStruct (SettingsValue bs) = (length bs = n)"
| "fits n a v = False"

fun store :: "Address \<Rightarrow> register_value \<Rightarrow> ObjectDictionary \<Rightarrow> ObjectDictionary" where
  "store kAddrScratch (ScratchValue w) od = od\<lparr>scratch := w\<rparr>"
| "store kAddrSettingsStruct (SettingsValue bs) od = od\<lparr>settings_struct := bs\<rparr>"
| "store a v od = od"

fun stored :: "Address \<Rightarrow> ObjectDictionary \<Rightarrow> register_value" where
  "stored kAddrScratch od = ScratchValue (scratch od)"
| "stored kAddrSettingsStruct od = SettingsValue (settings_struct od)"

definition Write ::
  "nat \<Rightarrow> spi_exchange \<Rightarrow> Address \<Rightarrow> register_value \<Rightarrow> bool \<Rightarrow> ObjectDictionary \<Rightarrow>
   bool \<times> ObjectDictionary" where
  "Write n x a v require_ack od =
     (if \<not> fits n a v \<or> \<not> reached_remote x then (False, od)
      else (if require_ack then remote_confirmed x else True, store a v od))"

text \<open>A read that fails leaves the caller's variable as it was: \<open>v0\<close>.\<close>

definition Read ::
  "spi_exchange \<Rightarrow> Address \<Rightarrow> register_value \<Rightarrow> ObjectDictionary \<Rightarrow> register_value \<times> bool" where
  "Read x a v0 od = (if reached_remote x then (stored a od, True) else (v0, False))"

text \<open>
  The tests of test\_spi\_coprocessor.cc, run against this model. \<open>ASSERT_TRUE\<close> ends
  the test when it fails; \<open>EXPECT_EQ\<close> records a failure. The two scratch tests differ
  in \<open>require_ack\<close> only, and so do the two settings tests.
\<close>

datatype test_result = Passed | AssertFailed | ExpectFailed

definition test_WriteReadScratch ::
  "nat \<Rightarrow> bool \<Rightarrow> spi_exchange \<Rightarrow> spi_exchange \<Rightarrow> ObjectDictionary \<Rightarrow> test_result" where
  "test_WriteReadScratch n require_ack x1 x2 od =
     (let scratch_out = ScratchValue 0xDEADBEEF in
      case Write n x1 kAddrScratch scratch_out require_ack od of
        (False, od1) \<Rightarrow> AssertFailed
      | (True, od1) \<Rightarrow>
          (case Read x2 kAddrScratch (ScratchValue 0) od1 of
             (scratch_in, False) \<Rightarrow> AssertFailed
           | (scratch_in, True) \<Rightarrow> if scratch_out = scratch_in then Passed else ExpectFailed))"

text \<open>Byte \<open>i\<close> of the block the settings tests write is \<open>i % UINT8_MAX\<close>.\<close>

definition settings_pattern :: "nat \<Rightarrow> 8 word list" where
  "settings_pattern n = map (\<lambda>i. of_nat (i mod 255)) [0..<n]"

definition test_ReadWriteReadRewriteRereadBig ::
  "nat \<Rightarrow> bool \<Rightarrow> spi_exchange \<Rightarrow> spi_exchange \<Rightarrow> spi_exchange \<Rightarrow> spi_exchange \<Rightarrow>
   register_value \<Rightarrow> ObjectDictionary \<Rightarrow> test_result" where
  "test_ReadWriteReadRewriteRereadBig n require_ack x1 x2 x3 x4 uninitialised od =
     (case Read x1 kAddrSettingsStruct (SettingsValue (replicate n 0)) od of
        (settings_in_original, False) \<Rightarrow> AssertFailed
      | (settings_in_original, True) \<Rightarrow>
          (case Write n x2 kAddrSettingsStruct (SettingsValue (settings_pattern n)) require_ack od of
             (False, od1) \<Rightarrow> AssertFailed
           | (True, od1) \<Rightarrow>
               (case Read x3 kAddrSettingsStruct uninitialised od1 of
                  (settings_in_modified, False) \<Rightarrow> AssertFailed
                | (settings_in_modified, True) \<Rightarrow>
                    if settings_in_modified \<noteq> SettingsValue (settings_pattern n) then ExpectFailed
                    else (case Write n x4 kAddrSettingsStruct settings_in_original require_ack od1 of
                            (False, od2) \<Rightarrow> AssertFailed
                          | (True, od2) \<Rightarrow> Passed))))"

section \<open>Removing a client from the table\<close>

text \<open>
  Modelled from the spec: \<open>WiFiRemoveClient\<close> is a member function of \<open>CommsManager\<close>
  whose body is not in the sources; only its call in the event handler is. The spec has
  a client record \<open>{hardware_address, ip_address, active}\<close> in a table of fixed size,
  "marked inactive on disassociate event; never physically removed, only
  deactivated/reused", and for a client disassociate event "deactivate the matching
  ClientRecord (matched by hardware address)". Here every record of the table whose
  hardware address is the one given is marked inactive; the table keeps its length and
  nothing else in the manager changes.
\<close>

definition WiFiRemoveClient_spec ::
  "('w::len, 'p) CommsManager \<Rightarrow> mac \<Rightarrow> ('w, 'p) CommsManager" where
  "WiFiRemoveClient_spec c mac_buf_in =
     c\<lparr>wifi_clients_list :=
         map (\<lambda>r. if client_mac r = mac_buf_in then r\<lparr>active := False\<rparr> else r)
           (wifi_clients_list c)\<rparr>"

section \<open>States and inputs for the examples\<close>

text \<open>
  The manager before \<open>WiFiInit\<close>, with both modes enabled, two feeds, an empty client
  table and queues of two places; and the program at boot, where the handler's counter
  is 0 as its declaration says.
\<close>

definition boot_manager :: "('w::len, 'p) CommsManager" where
  "boot_manager =
     \<lparr>wifi_ap_enabled = True, wifi_sta_enabled = True, wifi_event_group = 0,
      wifi_sta_has_ip = False, wifi_was_initialized = False,
      ip_event_handler_was_initialized = False, run_wifi_ap_task = False,
      run_wifi_sta_task = False, wifi_clients_list = [],
      wifi_ap_message_queue = \<lparr>items = [], capacity = 2\<rparr>,
      wifi_sta_decoded_transponder_packet_queue = \<lparr>items = [], capacity = 2\<rparr>,
      feed_mps = [0, 0], feed_mps_counter = [0, 0], feed_mps_last_update_timestamp_ms = 0\<rparr>"

definition boot_firmware :: "('w::len, 'p) firmware" where
  "boot_firmware = \<lparr>s_retry_num = 0, comms_manager = boot_manager\<rparr>"

text \<open>\<open>k\<close> station-disconnected events in a row, the driver accepting every call.\<close>

definition disconnects :: "nat \<Rightarrow> ((esp_call \<Rightarrow> bool) \<times> wifi_event) list" where
  "disconnects k = replicate k (\<lambda>call. True, WIFI_EVENT_STA_DISCONNECTED 0)"

text \<open>A removal helper that leaves the manager as it is.\<close>

definition no_removal :: "('w::len, 'p) CommsManager \<Rightarrow> mac \<Rightarrow> ('w, 'p) CommsManager" where
  "no_removal c m = c"

text \<open>
  Stand-ins for the absent member functions: nothing is removed, \<open>IPInit\<close> only notes
  that it ran, a packet is its own validity flag, and a frame is the receiver id followed
  by one byte for the packet.
\<close>

definition plain_absent :: "('w::len, bool) absent" where
  "plain_absent =
     \<lparr>WiFiRemoveClient = no_removal,
      IPInit = (\<lambda>c. c\<lparr>ip_event_handler_was_initialized := True\<rparr>),
      IsValid = (\<lambda>p. p),
      TransponderPacketToBeastFramePrependReceiverID = (\<lambda>p rid. rid @ [if p then 1 else 0]),
      kMaxNumFeeds = 2\<rparr>"

definition boot_task :: sta_task where
  "boot_task =
     \<lparr>phase = WaitingForIP,
      locals = \<lparr>feed_sock = [], feed_sock_is_connected = [],
                feed_sock_last_connect_timestamp_ms = []\<rparr>\<rparr>"

text \<open>
  Five station-disconnected events, then \<open>WiFiInit\<close> with a driver that accepts every
  call and an event group that shows the failure bit.
\<close>

definition exhaust_then_init :: "bool operation list" where
  "exhaust_then_init =
     replicate 5 (HandleEvent (\<lambda>call. True) (WIFI_EVENT_STA_DISCONNECTED 0)) @
     [Init (\<lambda>call. True) [0, 2]]"

text \<open>A manager whose client table has one slot, not in use.\<close>

definition one_free_slot :: "('w::len, 'p) firmware" where
  "one_free_slot =
     \<lparr>s_retry_num = 0,
      comms_manager = boot_manager
        \<lparr>wifi_clients_list := [\<lparr>active = False, ip_addr = 0, client_mac = []\<rparr>]\<rparr>\<rparr>"

text \<open>A manager whose client table holds three clients, all in use.\<close>

definition clients_joined :: "('w::len, 'p) firmware" where
  "clients_joined =
     \<lparr>s_retry_num = 0,
      comms_manager = boot_manager
        \<lparr>wifi_clients_list :=
           [\<lparr>active = True, ip_addr = 1, client_mac = [1]\<rparr>,
            \<lparr>active = True, ip_addr = 2, client_mac = [2]\<rparr>,
            \<lparr>active = True, ip_addr = 3, client_mac = [3]\<rparr>]\<rparr>\<rparr>"

text \<open>
  A message, and managers whose two queues are full, with the tasks not running and
  running.
\<close>

definition hello :: NetworkMessage where
  "hello = \<lparr>data = [104, 105], len = 2, port = 30000\<rparr>"

definition full_queues_idle :: "('w::len, bool) CommsManager" where
  "full_queues_idle =
     boot_manager
       \<lparr>wifi_ap_message_queue := \<lparr>items = [hello, hello], capacity = 2\<rparr>,
        wifi_sta_decoded_transponder_packet_queue := \<lparr>items = [True, False], capacity = 2\<rparr>\<rparr>"

definition full_queues_running :: "('w::len, bool) CommsManager" where
  "full_queues_running = full_queues_idle\<lparr>run_wifi_ap_task := True, run_wifi_sta_task := True\<rparr>"

text \<open>
  Three clients, the second not in use; \<open>sendto\<close> fails twice with ENOMEM for the first
  client and then gets through, and fails with another error (\<open>errno\<close> 113) for the third.
\<close>

definition three_clients :: "NetworkClient list" where
  "three_clients =
     [\<lparr>active = True, ip_addr = 1, client_mac = [1]\<rparr>,
      \<lparr>active = False, ip_addr = 2, client_mac = [2]\<rparr>,
      \<lparr>active = True, ip_addr = 3, client_mac = [3]\<rparr>]"

definition busy_stack :: "nat \<Rightarrow> nat \<Rightarrow> int \<times> int" where
  "busy_stack i k = (if i = 0 then (if k < 2 then (- 1, 12) else (2, 12)) else (- 1, 113))"

text \<open>
  The program after six station-disconnected events and then a station-connected event:
  the reconnects are used up, the failure bit is set, and the link has come up after all.
\<close>

definition failed_then_connected :: "('w::len, bool) firmware" where
  "failed_then_connected =
     returned (snd (handle_events no_removal
        (disconnects 6 @ [(\<lambda>call. True, WIFI_EVENT_STA_CONNECTED)]) boot_firmware))"

text \<open>
  Two feeds: feed 0 is active, has a literal address and speaks Beast; feed 1 is not
  active. The task's arrays with feed 0 connected on socket 54 since time 6000, and the
  answers of an outside where everything succeeds at time \<open>now\<close>.
\<close>

definition two_feeds :: Settings where
  "two_feeds =
     \<lparr>feed_is_active = [True, False], feed_uris = [''10.0.0.7'', ''feed.example.org''],
      feed_ports = [30004, 30005], feed_protocols = [kBeast, kBeastRaw],
      feed_receiver_ids = [[1, 2], [3, 4]]\<rparr>"

definition feed0_connected :: sta_task_locals where
  "feed0_connected =
     \<lparr>feed_sock = [54, 0], feed_sock_is_connected = [True, False],
      feed_sock_last_connect_timestamp_ms = [6000, 0]\<rparr>"

definition all_well :: "32 word \<Rightarrow> nat \<Rightarrow> feed_env" where
  "all_well now i =
     \<lparr>now_ms = now, socket_ret = 55, getaddrinfo_ret = (0, Some 167772167), connect_ret = 0,
      send_ret = 4\<rparr>"

text \<open>The same outside, except that \<open>send\<close> fails.\<close>

definition send_fails :: "32 word \<Rightarrow> nat \<Rightarrow> feed_env" where
  "send_fails now i = (all_well now i)\<lparr>send_ret := - 1\<rparr>"

text \<open>
  The forwarder running with feed 0 connected, its queue empty, and settings in which
  no feed is active any more.
\<close>

definition forwarder_running :: "('w::len, bool) CommsManager" where
  "forwarder_running = boot_manager\<lparr>wifi_sta_has_ip := True, run_wifi_sta_task := True\<rparr>"

definition feeds_switched_off :: Settings where
  "feeds_switched_off = two_feeds\<lparr>feed_is_active := [False, False]\<rparr>"

text \<open>
  The task's arrays when it starts its loop, a manager with one packet queued, and five
  iterations of the task with \<open>two_feeds\<close>: feed 0 connects and sends, a send
  fails, a turn without packet, feed 0 connects again, and the feeds are switched off.
\<close>

definition fresh_arrays :: sta_task_locals where
  "fresh_arrays =
     \<lparr>feed_sock = [0, 0], feed_sock_is_connected = [False, False],
      feed_sock_last_connect_timestamp_ms = [0, 0]\<rparr>"

definition one_packet :: "('w::len, bool) CommsManager" where
  "one_packet =
     forwarder_running
       \<lparr>wifi_sta_decoded_transponder_packet_queue := \<lparr>items = [True], capacity = 2\<rparr>\<rparr>"

definition busy_day ::
  "(Settings \<times> 32 word \<times> (nat \<Rightarrow> feed_env) \<times> ('w::len, bool) CommsManager) list" where
  "busy_day =
     [(two_feeds, 6000, all_well 6000, one_packet),
      (two_feeds, 7000, send_fails 7000, one_packet),
      (two_feeds, 8000, all_well 8000, forwarder_running),
      (two_feeds, 13000, all_well 13000, one_packet),
      (feeds_switched_off, 14000, all_well 14000, one_packet)]"

text \<open>
  Feed 0 connected since 6000 meets a failing send at 8000; two packets follow at 9000
  and 11000, with an outside where everything would succeed.
\<close>

definition after_failure ::
  "(Settings \<times> 32 word \<times> (nat \<Rightarrow> feed_env) \<times> ('w::len, bool) CommsManager) list" where
  "after_failure =
     [(two_feeds, 9000, all_well 9000, one_packet),
      (two_feeds, 11000, all_well 11000, one_packet)]"

text \<open>
  Two iterations with a packet each, 1 ms apart: at 20000 \<open>send\<close> fails, at 20001
  everything would succeed.
\<close>

definition long_connected ::
  "(Settings \<times> 32 word \<times> (nat \<Rightarrow> feed_env) \<times> ('w::len, bool) CommsManager) list" where
  "long_connected =
     [(two_feeds, 20000, send_fails 20000, one_packet),
      (two_feeds, 20001, all_well 20001, one_packet)]"

text \<open>A remote side with zeroed registers, and an exchange that goes through.\<close>

definition zeroed :: ObjectDictionary where
  "zeroed = \<lparr>scratch = 0, settings_struct = replicate 4 0\<rparr>"

definition goes_through :: spi_exchange where
  "goes_through = \<lparr>reached_remote = True, remote_confirmed = True\<rparr>"

section \<open>Station reconnection\<close>

lemma retry_trace_append: "retry_trace (a @ b) = retry_trace a @ retry_trace b"
  by (simp add: retry_trace_def)

lemma count_list_filter_in: "P x \<Longrightarrow> count_list (filter P xs) x = count_list xs x"
  by (induction xs) auto

lemma count_retry_trace_fail:
  "count_list fx (EventGroupSetBits WIFI_FAIL_BIT) =
   count_list (retry_trace fx) (EventGroupSetBits WIFI_FAIL_BIT)"
  by (simp add: retry_trace_def count_list_filter_in)

lemma count_list_replicate_other: "x \<noteq> y \<Longrightarrow> count_list (replicate k y) x = 0"
  by (induction k) auto

lemma count_list_replicate_same: "count_list (replicate k x) x = k"
  by (induction k) auto

lemma clear_connected_keeps_fail:
  "xEventGroupClearBits g WIFI_CONNECTED_BIT AND WIFI_FAIL_BIT = g AND WIFI_FAIL_BIT"
  by (simp add: xEventGroupClearBits_def WIFI_CONNECTED_BIT_def WIFI_FAIL_BIT_def and.assoc)

lemma set_fail_sets_fail:
  "xEventGroupSetBits g WIFI_FAIL_BIT AND WIFI_FAIL_BIT = WIFI_FAIL_BIT"
  by (simp add: xEventGroupSetBits_def and.commute)

lemma fail_bit_nonzero: "WIFI_FAIL_BIT \<noteq> 0"
  by (simp add: WIFI_FAIL_BIT_def)

text \<open>One station-disconnected event, below the bound and at it.\<close>

lemma disconnected_retry:
  "s_retry_num s < 5 \<Longrightarrow>
   WiFiEventHandler rm ok (WIFI_EVENT_STA_DISCONNECTED r) s = (fx, Return s') \<Longrightarrow>
   s_retry_num s' = s_retry_num s + 1 \<and> retry_trace fx = [EspCall esp_wifi_connect] \<and>
   fail_signalled (comms_manager s') = fail_signalled (comms_manager s)"
  by (auto simp: Let_def kWiFiStaMaxNumReconnectAttempts_def retry_trace_def
        fail_signalled_def clear_connected_keeps_fail split: if_splits)

lemma disconnected_fail:
  "\<not> s_retry_num s < 5 \<Longrightarrow>
   WiFiEventHandler rm ok (WIFI_EVENT_STA_DISCONNECTED r) s = (fx, Return s') \<Longrightarrow>
   s_retry_num s' = s_retry_num s \<and> retry_trace fx = [EventGroupSetBits WIFI_FAIL_BIT] \<and>
   fail_signalled (comms_manager s')"
  by (auto simp: Let_def kWiFiStaMaxNumReconnectAttempts_def retry_trace_def
        fail_signalled_def set_fail_sets_fail fail_bit_nonzero split: if_splits)

lemma disconnected_abort:
  "WiFiEventHandler rm ok (WIFI_EVENT_STA_DISCONNECTED r) s = (fx, out) \<Longrightarrow> \<not> is_Return out \<Longrightarrow>
   s_retry_num s < 5 \<and> retry_trace fx = [EspCall esp_wifi_connect] \<and> out = Abort"
  by (auto simp: Let_def kWiFiStaMaxNumReconnectAttempts_def retry_trace_def split: if_splits)

lemma handle_events_Cons_Return:
  "handle_events rm ((ok, e) # es) s = (fx, Return s'') \<Longrightarrow>
   \<exists>fx1 s' fx2. WiFiEventHandler rm ok e s = (fx1, Return s') \<and>
      handle_events rm es s' = (fx2, Return s'') \<and> fx = fx1 @ fx2"
  by (auto split: prod.splits outcome.splits)

lemma handle_disconnects_returned:
  "list_all (\<lambda>x. sta_disconnected (snd x)) es \<Longrightarrow> s_retry_num s \<le> 5 \<Longrightarrow>
   handle_events rm es s = (fx, Return s') \<Longrightarrow>
     s_retry_num s' = min (s_retry_num s + int (length es)) 5 \<and>
     retry_trace fx =
       replicate (min (length es) (nat (5 - s_retry_num s))) (EspCall esp_wifi_connect) @
       replicate (length es - nat (5 - s_retry_num s)) (EventGroupSetBits WIFI_FAIL_BIT) \<and>
     fail_signalled (comms_manager s') =
       (fail_signalled (comms_manager s) \<or> nat (5 - s_retry_num s) < length es)"
proof (induction es arbitrary: s fx)
  case Nil
  then show ?case by (simp add: retry_trace_def)
next
  case (Cons x es)
  obtain ok e where x: "x = (ok, e)" by (cases x)
  from Cons.prems(1) x obtain r where e: "e = WIFI_EVENT_STA_DISCONNECTED r"
    by (cases e) auto
  from Cons.prems(3) x obtain fx1 s1 fx2 where
    h: "WiFiEventHandler rm ok e s = (fx1, Return s1)"
    and t: "handle_events rm es s1 = (fx2, Return s')" and fx: "fx = fx1 @ fx2"
    using handle_events_Cons_Return by blast
  have all: "list_all (\<lambda>x. sta_disconnected (snd x)) es" using Cons.prems(1) by simp
  show ?case
  proof (cases "s_retry_num s < 5")
    case True
    from disconnected_retry [OF True h [unfolded e]]
    have s1: "s_retry_num s1 = s_retry_num s + 1"
      and f1: "retry_trace fx1 = [EspCall esp_wifi_connect]"
      and b1: "fail_signalled (comms_manager s1) = fail_signalled (comms_manager s)"
      by simp_all
    have le: "s_retry_num s1 \<le> 5" using True s1 by simp
    have j: "nat (5 - s_retry_num s) = Suc (nat (5 - s_retry_num s1))"
      using True s1 by simp
    from Cons.IH [OF all le t] show ?thesis
      using s1 b1 by (simp add: fx retry_trace_append f1 j)
  next
    case False
    from disconnected_fail [OF False h [unfolded e]]
    have s1: "s_retry_num s1 = s_retry_num s"
      and f1: "retry_trace fx1 = [EventGroupSetBits WIFI_FAIL_BIT]"
      and b1: "fail_signalled (comms_manager s1)"
      by simp_all
    have le: "s_retry_num s1 \<le> 5" using Cons.prems(2) s1 by simp
    have j: "nat (5 - s_retry_num s) = 0" "nat (5 - s_retry_num s1) = 0"
      using False s1 by simp_all
    from Cons.IH [OF all le t] show ?thesis
      using s1 b1 False Cons.prems(2)
      by (simp add: fx retry_trace_append f1 j replicate_append_same)
  qed
qed

lemma handle_disconnects_any_outcome:
  "list_all (\<lambda>x. sta_disconnected (snd x)) es \<Longrightarrow> s_retry_num s \<le> 5 \<Longrightarrow>
   handle_events rm es s = (fx, out) \<Longrightarrow>
     \<exists>a b. retry_trace fx =
         replicate a (EspCall esp_wifi_connect) @ replicate b (EventGroupSetBits WIFI_FAIL_BIT) \<and>
       a \<le> nat (5 - s_retry_num s) \<and> (0 < b \<longrightarrow> a = nat (5 - s_retry_num s))"
proof (induction es arbitrary: s fx out)
  case Nil
  then show ?case by (simp add: retry_trace_def)
next
  case (Cons x es)
  obtain ok e where x: "x = (ok, e)" by (cases x)
  from Cons.prems(1) x obtain rs where e: "e = WIFI_EVENT_STA_DISCONNECTED rs"
    by (cases e) auto
  have all: "list_all (\<lambda>x. sta_disconnected (snd x)) es" using Cons.prems(1) by simp
  obtain fx1 r1 where h: "WiFiEventHandler rm ok e s = (fx1, r1)"
    by (cases "WiFiEventHandler rm ok e s")
  show ?case
  proof (cases "is_Return r1")
    case False
    from disconnected_abort [OF h [unfolded e] False]
    have lt: "s_retry_num s < 5" and f1: "retry_trace fx1 = [EspCall esp_wifi_connect]"
      and r1: "r1 = Abort" by simp_all
    have "fx = fx1" using Cons.prems(3) x h r1 by simp
    then have "retry_trace fx =
        replicate 1 (EspCall esp_wifi_connect) @ replicate 0 (EventGroupSetBits WIFI_FAIL_BIT)"
      using f1 by simp
    moreover have "1 \<le> nat (5 - s_retry_num s)" using lt by simp
    ultimately show ?thesis by blast
  next
    case True
    then obtain s1 where r1: "r1 = Return s1" by (cases r1) auto
    obtain fx2 where t: "handle_events rm es s1 = (fx2, out)" and fx: "fx = fx1 @ fx2"
      using Cons.prems(3) x h r1 by (auto split: prod.splits)
    show ?thesis
    proof (cases "s_retry_num s < 5")
      case True
      from disconnected_retry [OF True h [unfolded e r1]]
      have s1: "s_retry_num s1 = s_retry_num s + 1"
        and f1: "retry_trace fx1 = [EspCall esp_wifi_connect]"
        by simp_all
      have le: "s_retry_num s1 \<le> 5" using True s1 by simp
      have j: "nat (5 - s_retry_num s) = Suc (nat (5 - s_retry_num s1))"
        using True s1 by simp
      from Cons.IH [OF all le t] obtain a b where
        ab: "retry_trace fx2 = replicate a (EspCall esp_wifi_connect) @
               replicate b (EventGroupSetBits WIFI_FAIL_BIT)"
          "a \<le> nat (5 - s_retry_num s1)" "0 < b \<longrightarrow> a = nat (5 - s_retry_num s1)"
        by blast
      have "retry_trace fx = replicate (Suc a) (EspCall esp_wifi_connect) @
               replicate b (EventGroupSetBits WIFI_FAIL_BIT)"
        by (simp add: fx retry_trace_append f1 ab(1))
      moreover have "Suc a \<le> nat (5 - s_retry_num s)" using ab(2) j by simp
      moreover have "0 < b \<longrightarrow> Suc a = nat (5 - s_retry_num s)" using ab(3) j by simp
      ultimately show ?thesis by blast
    next
      case False
      from disconnected_fail [OF False h [unfolded e r1]]
      have s1: "s_retry_num s1 = s_retry_num s"
        and f1: "retry_trace fx1 = [EventGroupSetBits WIFI_FAIL_BIT]"
        by simp_all
      have le: "s_retry_num s1 \<le> 5" using Cons.prems(2) s1 by simp
      have j: "nat (5 - s_retry_num s) = 0" "nat (5 - s_retry_num s1) = 0"
        using False s1 by simp_all
      from Cons.IH [OF all le t] obtain a b where
        ab: "retry_trace fx2 = replicate a (EspCall esp_wifi_connect) @
               replicate b (EventGroupSetBits WIFI_FAIL_BIT)"
          "a \<le> nat (5 - s_retry_num s1)"
        by blast
      have a0: "a = 0" using ab(2) j by simp
      have "retry_trace fx = replicate 0 (EspCall esp_wifi_connect) @
               replicate (Suc b) (EventGroupSetBits WIFI_FAIL_BIT)"
        by (simp add: fx retry_trace_append f1 ab(1) a0)
      then show ?thesis using j by (metis le0)
    qed
  qed
qed

text \<open>
  C1, as the code has it. Station-disconnected events are handled one after the other from
  boot, where the counter is 0, whatever the driver answers. In the trace, the reconnect
  attempts come first and are at most 5, and the failure bit is set only after 5 attempts.
  When the handler has returned from all \<open>n\<close> events, the counter is the smaller of \<open>n\<close>
  and 5, so it never exceeds 5; the first five events each attempted a reconnect, and
  every event from the sixth on set the failure bit instead, \<open>n - 5\<close> times in all, with
  no reconnect after the first of them. The bit, once set, stays set.
\<close>

theorem station_reconnect_bounded:
  assumes "list_all (\<lambda>x. sta_disconnected (snd x)) es"
    and "s_retry_num s = 0"
    and "handle_events rm es s = (fx, out)"
  shows "(\<exists>a b. retry_trace fx =
            replicate a (EspCall esp_wifi_connect) @
            replicate b (EventGroupSetBits WIFI_FAIL_BIT) \<and>
          a \<le> 5 \<and> (0 < b \<longrightarrow> a = 5)) \<and>
         (\<forall>s'. out = Return s' \<longrightarrow>
            s_retry_num s' = min (int (length es)) 5 \<and> s_retry_num s' \<le> 5 \<and>
            retry_trace fx =
              replicate (min (length es) 5) (EspCall esp_wifi_connect) @
              replicate (length es - 5) (EventGroupSetBits WIFI_FAIL_BIT) \<and>
            count_list fx (EventGroupSetBits WIFI_FAIL_BIT) = length es - 5 \<and>
            fail_signalled (comms_manager s') =
              (fail_signalled (comms_manager s) \<or> 5 < length es))"
proof -
  have le: "s_retry_num s \<le> 5" using assms(2) by simp
  have five: "nat (5 - s_retry_num s) = 5" using assms(2) by simp
  have first: "\<exists>a b. retry_trace fx =
            replicate a (EspCall esp_wifi_connect) @
            replicate b (EventGroupSetBits WIFI_FAIL_BIT) \<and>
          a \<le> 5 \<and> (0 < b \<longrightarrow> a = 5)"
    using handle_disconnects_any_outcome [OF assms(1) le assms(3)] five by simp
  have second: "s_retry_num s' = min (int (length es)) 5 \<and> s_retry_num s' \<le> 5 \<and>
            retry_trace fx =
              replicate (min (length es) 5) (EspCall esp_wifi_connect) @
              replicate (length es - 5) (EventGroupSetBits WIFI_FAIL_BIT) \<and>
            count_list fx (EventGroupSetBits WIFI_FAIL_BIT) = length es - 5 \<and>
            fail_signalled (comms_manager s') =
              (fail_signalled (comms_manager s) \<or> 5 < length es)"
    if r: "out = Return s'" for s'
  proof -
    from handle_disconnects_returned [OF assms(1) le assms(3) [unfolded r]] five assms(2)
    have a: "s_retry_num s' = min (int (length es)) 5"
      and b: "retry_trace fx =
              replicate (min (length es) 5) (EspCall esp_wifi_connect) @
              replicate (length es - 5) (EventGroupSetBits WIFI_FAIL_BIT)"
      and c: "fail_signalled (comms_manager s') =
              (fail_signalled (comms_manager s) \<or> 5 < length es)"
      by simp_all
    have "count_list fx (EventGroupSetBits WIFI_FAIL_BIT) = length es - 5"
      by (simp add: count_retry_trace_fail [of fx] b count_list_replicate_other
            count_list_replicate_same)
    with a b c show ?thesis by simp
  qed
  from first second show ?thesis by blast
qed

theorem station_reconnect_bounded_witness:
  "s_retry_num (returned (snd (handle_events no_removal (disconnects 7)
       (boot_firmware :: (16, bool) firmware)))) = 5 \<and>
   retry_trace (fst (handle_events no_removal (disconnects 7)
       (boot_firmware :: (16, bool) firmware))) =
     replicate 5 (EspCall esp_wifi_connect) @ replicate 2 (EventGroupSetBits WIFI_FAIL_BIT) \<and>
   fail_signalled (comms_manager (returned (snd (handle_events no_removal (disconnects 7)
       (boot_firmware :: (16, bool) firmware)))))"
proof -
  let ?run = "handle_events no_removal (disconnects 7) (boot_firmware :: (16, bool) firmware)"
  have h1: "list_all (\<lambda>x. sta_disconnected (snd x)) (disconnects 7)"
    by (simp add: disconnects_def list_all_iff)
  have h2: "s_retry_num (boot_firmware :: (16, bool) firmware) = 0"
    by (simp add: boot_firmware_def)
  have h3: "?run = (fst ?run, snd ?run)" by simp
  have "is_Return (snd ?run)" by code_simp
  then have r: "snd ?run = Return (returned (snd ?run))" by simp
  from station_reconnect_bounded [OF h1 h2 h3] r show ?thesis
    by (simp add: disconnects_def)
qed

text \<open>
  C1 as stated fails on seven station-disconnected events in a row: the sixth and the
  seventh event both set the failure bit.
\<close>

theorem station_failure_signal_twice:
  "count_list (fst (handle_events no_removal (disconnects 7)
      (boot_firmware :: (16, bool) firmware))) (EventGroupSetBits WIFI_FAIL_BIT) = 2"
  by code_simp

section \<open>The reconnect counter over the whole component\<close>

lemma handler_counter_mono:
  "WiFiEventHandler rm ok e s = (fx, Return s') \<Longrightarrow> s_retry_num s \<le> s_retry_num s'"
  by (cases e) (auto simp: Let_def split: if_splits)

lemma wifi_step_counter_mono:
  "wifi_step x operation (s, t) = Return (s', t') \<Longrightarrow> s_retry_num s \<le> s_retry_num s'"
proof (cases operation)
  case (HandleEvent ok e)
  assume a: "wifi_step x operation (s, t) = Return (s', t')"
  obtain fx out where h: "WiFiEventHandler (WiFiRemoveClient x) ok e s = (fx, out)"
    by (cases "WiFiEventHandler (WiFiRemoveClient x) ok e s")
  with a HandleEvent have "out = Return s'" by (cases out) auto
  with h show ?thesis using handler_counter_mono by blast
qed (auto split: outcome.splits prod.splits)

lemma wifi_run_counter_mono:
  "wifi_run x ops st = Return st' \<Longrightarrow> s_retry_num (fst st) \<le> s_retry_num (fst st')"
proof (induction ops arbitrary: st)
  case Nil
  then show ?case by simp
next
  case (Cons operation ops)
  from Cons.prems obtain st1 where
    one: "wifi_step x operation st = Return st1" and rest: "wifi_run x ops st1 = Return st'"
    by (auto split: outcome.splits)
  have "s_retry_num (fst st) \<le> s_retry_num (fst st1)"
    using wifi_step_counter_mono [of x operation "fst st" "snd st" "fst st1" "snd st1"] one
    by simp
  with Cons.IH [OF rest] show ?case by simp
qed

lemma wifi_step_other_counter:
  "wifi_step x operation (s, t) = Return (s', t') \<Longrightarrow>
   (\<forall>ok e. operation \<noteq> HandleEvent ok e) \<Longrightarrow> s_retry_num s' = s_retry_num s"
  by (cases operation) (auto split: outcome.splits prod.splits)

lemma disconnected_at_bound:
  "5 \<le> s_retry_num s \<Longrightarrow>
   fst (WiFiEventHandler rm ok (WIFI_EVENT_STA_DISCONNECTED r) s) =
     [EventGroupClearBits WIFI_CONNECTED_BIT, EventGroupSetBits WIFI_FAIL_BIT]"
  by (simp add: Let_def kWiFiStaMaxNumReconnectAttempts_def)

text \<open>
  C10. Over any operations of the component that return, the handler's counter never
  goes down; an operation other than handling an event, \<open>WiFiInit\<close> among them, leaves it
  as it is; so once it has reached 5, a station-disconnected event handled after any
  further operations takes the failure branch: it sets the failure bit and attempts no
  reconnect. (\<open>WiFiDeInit\<close> after an initialisation restarts the chip: that run is
  over, and the next one starts from boot.)
\<close>

theorem retry_counter_never_reset:
  assumes "wifi_run x ops (s, t) = Return (s', t')"
  shows "s_retry_num s \<le> s_retry_num s' \<and>
         ((\<forall>operation \<in> set ops. \<forall>ok e. operation \<noteq> HandleEvent ok e) \<longrightarrow>
            s_retry_num s' = s_retry_num s) \<and>
         (kWiFiStaMaxNumReconnectAttempts \<le> s_retry_num s \<longrightarrow>
            (\<forall>rm ok r. fst (WiFiEventHandler rm ok (WIFI_EVENT_STA_DISCONNECTED r) s') =
               [EventGroupClearBits WIFI_CONNECTED_BIT, EventGroupSetBits WIFI_FAIL_BIT]))"
proof -
  have mono: "s_retry_num s \<le> s_retry_num s'"
    using wifi_run_counter_mono [OF assms] by simp
  have same: "s_retry_num s' = s_retry_num s"
    if "\<forall>operation \<in> set ops. \<forall>ok e. operation \<noteq> HandleEvent ok e"
    using assms that
  proof (induction ops arbitrary: s t)
    case Nil
    then show ?case by simp
  next
    case (Cons operation ops)
    from Cons.prems(1) obtain s1 t1 where
      one: "wifi_step x operation (s, t) = Return (s1, t1)"
      and rest: "wifi_run x ops (s1, t1) = Return (s', t')"
      by (auto split: outcome.splits)
    have "s_retry_num s1 = s_retry_num s"
      using wifi_step_other_counter [OF one] Cons.prems(2) by simp
    moreover have "s_retry_num s' = s_retry_num s1"
      using Cons.IH [OF rest] Cons.prems(2) by simp
    ultimately show ?case by simp
  qed
  have branch: "fst (WiFiEventHandler rm ok (WIFI_EVENT_STA_DISCONNECTED r) s') =
               [EventGroupClearBits WIFI_CONNECTED_BIT, EventGroupSetBits WIFI_FAIL_BIT]"
    if "kWiFiStaMaxNumReconnectAttempts \<le> s_retry_num s" for rm ok r
    using that mono disconnected_at_bound [of s' rm ok r]
    by (simp add: kWiFiStaMaxNumReconnectAttempts_def)
  from mono same branch show ?thesis by blast
qed

theorem retry_counter_never_reset_witness:
  "s_retry_num (fst (returned (wifi_run (plain_absent :: (16, bool) absent) exhaust_then_init
      (boot_firmware, boot_task)))) = 5 \<and>
   fst (WiFiEventHandler no_removal (\<lambda>call. True) (WIFI_EVENT_STA_DISCONNECTED 0)
      (fst (returned (wifi_run (plain_absent :: (16, bool) absent) exhaust_then_init
         (boot_firmware, boot_task))))) =
     [EventGroupClearBits WIFI_CONNECTED_BIT, EventGroupSetBits WIFI_FAIL_BIT]"
proof -
  let ?x = "plain_absent :: (16, bool) absent"
  let ?five = "replicate 5 (HandleEvent (\<lambda>call. True) (WIFI_EVENT_STA_DISCONNECTED 0)) :: bool operation list"
  let ?mid = "returned (wifi_run ?x ?five (boot_firmware, boot_task))"
  let ?end = "returned (wifi_run ?x [Init (\<lambda>call. True) [0, 2]] ?mid)"
  have m: "wifi_run ?x ?five (boot_firmware, boot_task) = Return ?mid"
  proof -
    have "is_Return (wifi_run ?x ?five (boot_firmware, boot_task))" by code_simp
    then show ?thesis by simp
  qed
  have five: "s_retry_num (fst ?mid) = 5" by code_simp
  have e: "wifi_run ?x [Init (\<lambda>call. True) [0, 2]] ?mid = Return ?end"
  proof -
    have "is_Return (wifi_run ?x [Init (\<lambda>call. True) [0, 2]] ?mid)" by code_simp
    then show ?thesis by simp
  qed
  have e': "wifi_run ?x [Init (\<lambda>call. True) [0, 2]] (fst ?mid, snd ?mid) = Return (fst ?end, snd ?end)"
    using e by simp
  have all: "wifi_run ?x exhaust_then_init (boot_firmware, boot_task) = Return ?end"
    by code_simp
  from retry_counter_never_reset [OF e'] five
  have "s_retry_num (fst ?end) = 5"
    and "fst (WiFiEventHandler no_removal (\<lambda>call. True) (WIFI_EVENT_STA_DISCONNECTED 0) (fst ?end)) =
     [EventGroupClearBits WIFI_CONNECTED_BIT, EventGroupSetBits WIFI_FAIL_BIT]"
    by (simp_all add: kWiFiStaMaxNumReconnectAttempts_def)
  then show ?thesis using all by simp
qed

section \<open>Client events\<close>

text \<open>
  C6, as the code has it. Handling a client-associate event does nothing but log: the
  state, the client table in it, is what it was, so no record is created or activated by
  the handler. Handling a client-disassociate event hands the event's hardware address
  to \<open>WiFiRemoveClient\<close> and does nothing else. With the helper as the spec describes
  it, every record of the table that has the event's address is inactive afterwards, its
  address and IP address kept; every other record is as it was; the table has the length
  it had, and nothing else in the manager changes. There is no effect outside, and the
  reconnect counter is as it was.
\<close>

theorem client_events_handled:
  "WiFiEventHandler WiFiRemoveClient_spec ok (WIFI_EVENT_AP_STACONNECTED m aid) s = ([], Return s) \<and>
   (\<exists>s'. WiFiEventHandler WiFiRemoveClient_spec ok (WIFI_EVENT_AP_STADISCONNECTED m aid) s =
            ([], Return s') \<and>
      s_retry_num s' = s_retry_num s \<and>
      comms_manager s' =
        (comms_manager s)\<lparr>wifi_clients_list := wifi_clients_list (comms_manager s')\<rparr> \<and>
      length (wifi_clients_list (comms_manager s')) = length (wifi_clients_list (comms_manager s)) \<and>
      (\<forall>i < length (wifi_clients_list (comms_manager s)).
         (client_mac (wifi_clients_list (comms_manager s) ! i) = m \<longrightarrow>
            wifi_clients_list (comms_manager s') ! i =
              (wifi_clients_list (comms_manager s) ! i)\<lparr>active := False\<rparr>) \<and>
         (client_mac (wifi_clients_list (comms_manager s) ! i) \<noteq> m \<longrightarrow>
            wifi_clients_list (comms_manager s') ! i = wifi_clients_list (comms_manager s) ! i)))"
  by (simp add: WiFiRemoveClient_spec_def)

theorem client_events_handled_witness:
  "WiFiEventHandler WiFiRemoveClient_spec (\<lambda>call. True) (WIFI_EVENT_AP_STACONNECTED [4] 1)
     (clients_joined :: (16, bool) firmware) = ([], Return clients_joined) \<and>
   wifi_clients_list (comms_manager (returned (snd
     (WiFiEventHandler WiFiRemoveClient_spec (\<lambda>call. True) (WIFI_EVENT_AP_STADISCONNECTED [2] 1)
        (clients_joined :: (16, bool) firmware))))) =
     [\<lparr>active = True, ip_addr = 1, client_mac = [1]\<rparr>,
      \<lparr>active = False, ip_addr = 2, client_mac = [2]\<rparr>,
      \<lparr>active = True, ip_addr = 3, client_mac = [3]\<rparr>]"
  using client_events_handled [of "\<lambda>call. True" "[4]" 1 "clients_joined :: (16, bool) firmware"]
    client_events_handled [of "\<lambda>call. True" "[2]" 1 "clients_joined :: (16, bool) firmware"]
  by (simp add: clients_joined_def WiFiRemoveClient_spec_def)

text \<open>
  C6 as stated fails on a client-associate event that meets a table with a free slot:
  afterwards the table is what it was and no record in it is active.
\<close>

theorem associate_event_adds_no_client:
  "snd (WiFiEventHandler no_removal (\<lambda>call. True)
     (WIFI_EVENT_AP_STACONNECTED [1, 2, 3, 4, 5, 6] 1) (one_free_slot :: (16, bool) firmware)) =
     Return one_free_slot \<and>
   wifi_clients_list (comms_manager (one_free_slot :: (16, bool) firmware)) =
     [\<lparr>active = False, ip_addr = 0, client_mac = []\<rparr>]"
  by (simp add: one_free_slot_def)

section \<open>Queue overflow\<close>

lemma xQueueSend_full:
  "capacity q \<le> length (items q) \<Longrightarrow> xQueueSend q x = (errQUEUE_FULL, q)"
  by (simp add: xQueueSend_def)

lemma xQueueSend_room:
  "length (items q) < capacity q \<Longrightarrow> xQueueSend q x = (pdTRUE, q\<lparr>items := items q @ [x]\<rparr>)"
  by (simp add: xQueueSend_def)

text \<open>
  C5, as the code has it. When the task that empties the queue is running and the queue
  is full, the call returns failure and the queue is left empty, everything else as it
  was. When the task is not running, the call returns failure before it touches the
  queue, full or not. With room in the queue and the task running, the item is appended
  and the call returns success.
\<close>

theorem enqueue_on_full_queue:
  "(run_wifi_ap_task c \<and> capacity (wifi_ap_message_queue c) \<le> length (items (wifi_ap_message_queue c)) \<longrightarrow>
      WiFiAccessPointSendMessageToAllStations message c =
        (False, c\<lparr>wifi_ap_message_queue := (wifi_ap_message_queue c)\<lparr>items := []\<rparr>\<rparr>)) \<and>
   (run_wifi_sta_task c \<and>
    capacity (wifi_sta_decoded_transponder_packet_queue c)
      \<le> length (items (wifi_sta_decoded_transponder_packet_queue c)) \<longrightarrow>
      WiFiStationSendDecodedTransponderPacket decoded_packet c =
        (False, c\<lparr>wifi_sta_decoded_transponder_packet_queue :=
           (wifi_sta_decoded_transponder_packet_queue c)\<lparr>items := []\<rparr>\<rparr>)) \<and>
   (\<not> run_wifi_ap_task c \<longrightarrow> WiFiAccessPointSendMessageToAllStations message c = (False, c)) \<and>
   (\<not> run_wifi_sta_task c \<longrightarrow>
      WiFiStationSendDecodedTransponderPacket decoded_packet c = (False, c)) \<and>
   (run_wifi_ap_task c \<and> length (items (wifi_ap_message_queue c)) < capacity (wifi_ap_message_queue c) \<longrightarrow>
      WiFiAccessPointSendMessageToAllStations message c =
        (True, c\<lparr>wifi_ap_message_queue :=
           (wifi_ap_message_queue c)\<lparr>items := items (wifi_ap_message_queue c) @ [message]\<rparr>\<rparr>)) \<and>
   (run_wifi_sta_task c \<and>
    length (items (wifi_sta_decoded_transponder_packet_queue c))
      < capacity (wifi_sta_decoded_transponder_packet_queue c) \<longrightarrow>
      WiFiStationSendDecodedTransponderPacket decoded_packet c =
        (True, c\<lparr>wifi_sta_decoded_transponder_packet_queue :=
           (wifi_sta_decoded_transponder_packet_queue c)
             \<lparr>items := items (wifi_sta_decoded_transponder_packet_queue c) @ [decoded_packet]\<rparr>\<rparr>))"
  by (simp add: WiFiAccessPointSendMessageToAllStations_def
        WiFiStationSendDecodedTransponderPacket_def xQueueSend_full xQueueSend_room
        xQueueReset_def errQUEUE_FULL_def pdTRUE_def)

theorem enqueue_on_full_queue_witness:
  "fst (WiFiAccessPointSendMessageToAllStations hello (full_queues_running :: (16, bool) CommsManager)) = False \<and>
   items (wifi_ap_message_queue (snd (WiFiAccessPointSendMessageToAllStations hello
     (full_queues_running :: (16, bool) CommsManager)))) = [] \<and>
   fst (WiFiStationSendDecodedTransponderPacket True (full_queues_running :: (16, bool) CommsManager)) = False \<and>
   items (wifi_sta_decoded_transponder_packet_queue (snd (WiFiStationSendDecodedTransponderPacket True
     (full_queues_running :: (16, bool) CommsManager)))) = []"
  using enqueue_on_full_queue [of "full_queues_running :: (16, bool) CommsManager" hello True]
  by (simp add: full_queues_running_def full_queues_idle_def boot_manager_def)

text \<open>
  C5 as stated fails when the queue is full and the task is not running: the call
  returns failure and the queue still holds its two items.
\<close>

theorem enqueue_task_not_running:
  "WiFiAccessPointSendMessageToAllStations hello (full_queues_idle :: (16, bool) CommsManager) =
     (False, full_queues_idle) \<and>
   items (wifi_ap_message_queue (full_queues_idle :: (16, bool) CommsManager)) = [hello, hello] \<and>
   capacity (wifi_ap_message_queue (full_queues_idle :: (16, bool) CommsManager)) = 2 \<and>
   WiFiStationSendDecodedTransponderPacket True (full_queues_idle :: (16, bool) CommsManager) =
     (False, full_queues_idle) \<and>
   items (wifi_sta_decoded_transponder_packet_queue (full_queues_idle :: (16, bool) CommsManager)) =
     [True, False]"
  by (simp add: WiFiAccessPointSendMessageToAllStations_def
        WiFiStationSendDecodedTransponderPacket_def full_queues_idle_def boot_manager_def)

section \<open>The broadcaster's retries\<close>

lemma sendto_loop_done:
  "kWiFiNumRetries \<le> k \<Longrightarrow> sendto_loop call rs k ret = ([], ret, k)"
  by (subst sendto_loop.simps) simp

lemma sendto_loop_stop:
  "k < kWiFiNumRetries \<Longrightarrow> \<not> enomem_failure (rs k) \<Longrightarrow>
   sendto_loop call rs k ret = ([call], fst (rs k), k)"
  by (subst sendto_loop.simps) (auto simp: enomem_failure_def)

lemma sendto_loop_retry:
  "k < kWiFiNumRetries \<Longrightarrow> enomem_failure (rs k) \<Longrightarrow>
   sendto_loop call rs k ret =
     (call # TaskDelayMs kWiFiRetryWaitTimeMs # fst (sendto_loop call rs (Suc k) (fst (rs k))),
      snd (sendto_loop call rs (Suc k) (fst (rs k))))"
  by (subst sendto_loop.simps) (auto simp: enomem_failure_def)

text \<open>The loop from its start, written out.\<close>

lemma sendto_loop_unfolded:
  "sendto_loop call rs 0 0 =
     (if \<not> enomem_failure (rs 0) then ([call], fst (rs 0), 0)
      else if \<not> enomem_failure (rs 1) then
        ([call, TaskDelayMs kWiFiRetryWaitTimeMs, call], fst (rs 1), 1)
      else if \<not> enomem_failure (rs 2) then
        ([call, TaskDelayMs kWiFiRetryWaitTimeMs, call, TaskDelayMs kWiFiRetryWaitTimeMs, call],
         fst (rs 2), 2)
      else
        ([call, TaskDelayMs kWiFiRetryWaitTimeMs, call, TaskDelayMs kWiFiRetryWaitTimeMs, call,
          TaskDelayMs kWiFiRetryWaitTimeMs], fst (rs 2), 3))"
proof -
  have k: "(0::nat) < kWiFiNumRetries" "Suc 0 < kWiFiNumRetries" "Suc (Suc 0) < kWiFiNumRetries"
    "kWiFiNumRetries \<le> Suc (Suc (Suc 0))"
    by (simp_all add: kWiFiNumRetries_def)
  have two: "(2::nat) = Suc (Suc 0)" and three: "(3::nat) = Suc (Suc (Suc 0))" by simp_all
  show ?thesis
    by (simp add: sendto_loop_stop [OF k(1)] sendto_loop_retry [OF k(1)]
          sendto_loop_stop [OF k(2)] sendto_loop_retry [OF k(2)]
          sendto_loop_stop [OF k(3)] sendto_loop_retry [OF k(3)]
          sendto_loop_done [OF k(4)] two three)
qed

lemma send_to_clients_nth:
  "i < length cls \<Longrightarrow>
   send_to_clients message rss j cls ! i = send_to_client message (rss (j + i)) (cls ! i)"
proof (induction cls arbitrary: i j)
  case Nil
  then show ?case by simp
next
  case (Cons cl cls)
  show ?case
  proof (cases i)
    case 0
    then show ?thesis by simp
  next
    case (Suc i')
    with Cons.prems have "i' < length cls" by simp
    from Cons.IH [OF this, of "Suc j"] Suc show ?thesis by simp
  qed
qed

lemma send_to_clients_length: "length (send_to_clients message rss j cls) = length cls"
  by (induction cls arbitrary: j) auto

lemma sendto_attempts:
  fixes call :: effect
  assumes "\<And>d. call \<noteq> TaskDelayMs d"
    and "sendto_loop call rs 0 0 = (fx, ret, n)"
  shows "1 \<le> count_list fx call \<and> count_list fx call \<le> kWiFiNumRetries \<and>
         (\<forall>k. Suc k < count_list fx call \<longrightarrow> enomem_failure (rs k)) \<and>
         (count_list fx call < kWiFiNumRetries \<longrightarrow> \<not> enomem_failure (rs (count_list fx call - 1))) \<and>
         ret = fst (rs (count_list fx call - 1))"
proof -
  have ne: "TaskDelayMs kWiFiRetryWaitTimeMs \<noteq> call" using assms(1) by metis
  have small: "\<And>k::nat. Suc k < Suc (Suc 0) \<Longrightarrow> k = 0"
    "\<And>k::nat. Suc k < Suc (Suc (Suc 0)) \<Longrightarrow> k = 0 \<or> k = 1" by auto
  consider (a) "\<not> enomem_failure (rs 0)"
    | (b) "enomem_failure (rs 0)" "\<not> enomem_failure (rs 1)"
    | (c) "enomem_failure (rs 0)" "enomem_failure (rs 1)" "\<not> enomem_failure (rs 2)"
    | (d) "enomem_failure (rs 0)" "enomem_failure (rs 1)" "enomem_failure (rs 2)"
    by blast
  then show ?thesis
  proof cases
    case a
    have h: "sendto_loop call rs 0 0 =
        ([call], fst (rs 0), 0)"
      using a by (simp add: sendto_loop_unfolded)
    from assms(2) [unfolded h]
    have "fx = [call]" "ret = fst (rs 0)"
      by auto
    with a ne show ?thesis by (auto simp: kWiFiNumRetries_def)
  next
    case b
    have h: "sendto_loop call rs 0 0 =
        ([call, TaskDelayMs kWiFiRetryWaitTimeMs, call], fst (rs 1), 1)"
      using b by (simp add: sendto_loop_unfolded)
    from assms(2) [unfolded h]
    have "fx = [call, TaskDelayMs kWiFiRetryWaitTimeMs, call]" "ret = fst (rs 1)"
      by auto
    with b ne show ?thesis using small(1) by (auto simp: kWiFiNumRetries_def)
  next
    case c
    have h: "sendto_loop call rs 0 0 =
        ([call, TaskDelayMs kWiFiRetryWaitTimeMs, call, TaskDelayMs kWiFiRetryWaitTimeMs, call], fst (rs 2), 2)"
      using c by (simp add: sendto_loop_unfolded)
    from assms(2) [unfolded h]
    have "fx = [call, TaskDelayMs kWiFiRetryWaitTimeMs, call, TaskDelayMs kWiFiRetryWaitTimeMs, call]" "ret = fst (rs 2)"
      by auto
    with c ne show ?thesis using small(2) by (auto simp: kWiFiNumRetries_def numeral_2_eq_2)
  next
    case d
    have h: "sendto_loop call rs 0 0 =
        ([call, TaskDelayMs kWiFiRetryWaitTimeMs, call, TaskDelayMs kWiFiRetryWaitTimeMs, call, TaskDelayMs kWiFiRetryWaitTimeMs], fst (rs 2), 3)"
      using d by (simp add: sendto_loop_unfolded)
    from assms(2) [unfolded h]
    have "fx = [call, TaskDelayMs kWiFiRetryWaitTimeMs, call, TaskDelayMs kWiFiRetryWaitTimeMs, call, TaskDelayMs kWiFiRetryWaitTimeMs]" "ret = fst (rs 2)"
      by auto
    with d ne show ?thesis using small(2) by (auto simp: kWiFiNumRetries_def numeral_2_eq_2)
  qed
qed

text \<open>
  C4. For a message and the client in slot \<open>i\<close> of the table, what the broadcaster does
  depends on that client and on the answers of \<open>sendto\<close> for it alone, whatever happens
  with the other clients. A slot not in use gets nothing. For an active client the number
  of \<open>sendto\<close> calls is at least 1 and at most 3; every call but the last one made failed
  with ENOMEM; and when fewer than 3 calls were made, the last one did not fail with
  ENOMEM: a success or any other failure ends the attempts at once.
\<close>

theorem broadcast_retries_bounded:
  assumes "i < length cls"
  shows "length (send_to_clients message rss 0 cls) = length cls \<and>
         send_to_clients message rss 0 cls ! i = send_to_client message (rss i) (cls ! i) \<and>
         (\<not> active (cls ! i) \<longrightarrow> fst (send_to_clients message rss 0 cls ! i) = []) \<and>
         (active (cls ! i) \<longrightarrow>
            (let fx = fst (send_to_clients message rss 0 cls ! i);
                 ret = fst (snd (send_to_clients message rss 0 cls ! i));
                 a = count_list fx
                       (SocketSendTo (ip_addr (cls ! i)) (port message) (data message) (len message))
             in 1 \<le> a \<and> a \<le> kWiFiNumRetries \<and>
                (\<forall>k. Suc k < a \<longrightarrow> enomem_failure (rss i k)) \<and>
                (a < kWiFiNumRetries \<longrightarrow> \<not> enomem_failure (rss i (a - 1))) \<and>
                ret = fst (rss i (a - 1))))"
proof -
  have nth: "send_to_clients message rss 0 cls ! i = send_to_client message (rss i) (cls ! i)"
    using send_to_clients_nth [OF assms, of message rss 0] by simp
  have idle: "fst (send_to_clients message rss 0 cls ! i) = []" if "\<not> active (cls ! i)"
    using that nth by (simp add: send_to_client_def)
  have busy: "let fx = fst (send_to_clients message rss 0 cls ! i);
                 ret = fst (snd (send_to_clients message rss 0 cls ! i));
                 a = count_list fx
                       (SocketSendTo (ip_addr (cls ! i)) (port message) (data message) (len message))
             in 1 \<le> a \<and> a \<le> kWiFiNumRetries \<and>
                (\<forall>k. Suc k < a \<longrightarrow> enomem_failure (rss i k)) \<and>
                (a < kWiFiNumRetries \<longrightarrow> \<not> enomem_failure (rss i (a - 1))) \<and>
                ret = fst (rss i (a - 1))"
    if act: "active (cls ! i)"
  proof -
    let ?call = "SocketSendTo (ip_addr (cls ! i)) (port message) (data message) (len message)"
    obtain fx ret n where l: "sendto_loop ?call (rss i) 0 0 = (fx, ret, n)"
      by (cases "sendto_loop ?call (rss i) 0 0") auto
    have r: "send_to_clients message rss 0 cls ! i = (fx, ret, n)"
      using nth act l by (simp add: send_to_client_def)
    have "\<And>d. ?call \<noteq> TaskDelayMs d" by simp
    from sendto_attempts [OF this l] show ?thesis by (simp add: r Let_def)
  qed
  from nth idle busy show ?thesis by (simp add: send_to_clients_length)
qed

theorem broadcast_retries_bounded_witness:
  "map (\<lambda>r. count_list (fst r) (SocketSendTo 1 30000 [104, 105] 2))
       (send_to_clients hello busy_stack 0 three_clients) = [3, 0, 0] \<and>
   count_list (fst (send_to_clients hello busy_stack 0 three_clients ! 2))
       (SocketSendTo 3 30000 [104, 105] 2) = 1 \<and>
   \<not> enomem_failure (busy_stack 2 0) \<and> enomem_failure (busy_stack 0 0) \<and>
   enomem_failure (busy_stack 0 1)"
proof -
  have i: "2 < length three_clients" by (simp add: three_clients_def)
  have a: "active (three_clients ! 2)" by (simp add: three_clients_def)
  have n: "count_list (fst (send_to_clients hello busy_stack 0 three_clients ! 2))
       (SocketSendTo 3 30000 [104, 105] 2) = 1" by code_simp
  have m: "map (\<lambda>r. count_list (fst r) (SocketSendTo 1 30000 [104, 105] 2))
       (send_to_clients hello busy_stack 0 three_clients) = [3, 0, 0]" by code_simp
  have e: "enomem_failure (busy_stack 0 0) \<and> enomem_failure (busy_stack 0 1)"
    by (simp add: enomem_failure_def busy_stack_def ENOMEM_def)
  have c: "SocketSendTo (ip_addr (three_clients ! 2)) (port hello) (data hello) (len hello) =
      SocketSendTo 3 30000 [104, 105] 2"
    by (simp add: three_clients_def hello_def)
  note t = broadcast_retries_bounded [OF i, of hello busy_stack, unfolded Let_def c n]
  from t a have "\<not> enomem_failure (busy_stack 2 0)"
    by (simp add: kWiFiNumRetries_def)
  with n m e show ?thesis by simp
qed

section \<open>Initialisation\<close>

lemma esp_checks_all_ok: "\<forall>call. ok call \<Longrightarrow> esp_checks ok calls = (map EspCall calls, True)"
  by (induction calls) auto

lemma and_either_bit:
  "(v AND (WIFI_CONNECTED_BIT OR WIFI_FAIL_BIT) \<noteq> 0) =
   (v AND WIFI_CONNECTED_BIT \<noteq> 0 \<or> v AND WIFI_FAIL_BIT \<noteq> 0)"
proof -
  have "v AND (WIFI_CONNECTED_BIT OR WIFI_FAIL_BIT) =
        (v AND WIFI_CONNECTED_BIT) OR (v AND WIFI_FAIL_BIT)"
    by (simp add: bit.conj_disj_distrib)
  then show ?thesis by (auto simp: or_eq_0_iff)
qed

lemma wait_blocked:
  "(xEventGroupWaitBits timeline b = None) = (\<forall>v \<in> set timeline. v AND b = 0)"
  by (auto simp: xEventGroupWaitBits_def find_None_iff)

lemma wait_returned:
  "xEventGroupWaitBits timeline b = Some v \<Longrightarrow> v \<in> set timeline \<and> v AND b \<noteq> 0"
  by (auto simp: xEventGroupWaitBits_def find_Some_iff)

text \<open>\<open>WiFiInit\<close> with a driver that accepts every call, mode by mode.\<close>

lemma WiFiInit_disabled:
  assumes "\<forall>call. ok call"
    and "cm = (if \<not> ip_event_handler_was_initialized c then ipinit c else c)"
    and "\<not> wifi_ap_enabled cm" and "\<not> wifi_sta_enabled cm"
  shows "WiFiInit ipinit ok timeline c =
           (map EspCall (init_calls @ [esp_wifi_set_mode WIFI_MODE_STA, esp_wifi_stop]),
            Return (True, cm\<lparr>wifi_was_initialized := True\<rparr>))"
proof -
  have ok: "\<And>call. ok call" using assms(1) by simp
  show ?thesis
    using assms(3,4) [unfolded assms(2)] unfolding assms(2)
    by (cases "ip_event_handler_was_initialized c")
       (simp_all add: WiFiInit_def ok init_calls_def Let_def)
qed

lemma WiFiInit_station:
  assumes "\<forall>call. ok call"
    and "cm = (if \<not> ip_event_handler_was_initialized c then ipinit c else c)"
    and "wifi_sta_enabled cm"
    and "cn = (if wifi_ap_enabled cm
               then cm\<lparr>wifi_was_initialized := True, run_wifi_ap_task := True\<rparr>
               else cm\<lparr>wifi_was_initialized := True\<rparr>)"
    and "fxn = map EspCall (init_calls @
           [esp_wifi_set_mode (if wifi_ap_enabled cm then WIFI_MODE_APSTA else WIFI_MODE_STA)] @
           (if wifi_ap_enabled cm then [esp_wifi_set_config_ap] else []) @
           [esp_wifi_set_config_sta, esp_wifi_start]) @
           (if wifi_ap_enabled cm then [TaskCreate ''wifi_ap_task''] else [])"
  shows "WiFiInit ipinit ok timeline c =
           (case xEventGroupWaitBits timeline (WIFI_CONNECTED_BIT OR WIFI_FAIL_BIT) of
              None \<Rightarrow> (fxn, Blocked)
            | Some bits \<Rightarrow>
                if bits AND WIFI_CONNECTED_BIT \<noteq> 0
                then (fxn @ [TaskCreate ''wifi_sta_task''],
                      Return (True, cn\<lparr>run_wifi_sta_task := True\<rparr>))
                else (fxn, Return (False, cn)))"
proof -
  have ok: "\<And>call. ok call" using assms(1) by simp
  show ?thesis
    using assms(3) [unfolded assms(2)] unfolding assms(5) assms(4) assms(2)
    by (cases "ip_event_handler_was_initialized c")
       (simp_all add: WiFiInit_def ok init_calls_def Let_def split: option.splits)
qed

text \<open>
  C7, as the code has it, for a driver that accepts every call. The modes are read after
  \<open>IPInit\<close> has run, if it had to. With neither mode enabled, \<open>WiFiInit\<close> stops the
  radio and returns success without waiting and without starting a task. With station
  mode enabled it does not return as long as the event group shows neither the connected
  nor the failed bit; when it returns, the value it read has one of the two bits set, the
  forwarder task was started exactly when the connected bit was set in it, and the
  result is success exactly then: it is failure when the failed bit was read without the
  connected bit, and the forwarder's run flag is then left as it was.
\<close>

theorem init_waits_for_signal:
  assumes "\<forall>call. ok call"
    and "c1 = (if \<not> ip_event_handler_was_initialized c then ipinit c else c)"
    and "WiFiInit ipinit ok timeline c = (fx, out)"
  shows "(\<not> wifi_ap_enabled c1 \<and> \<not> wifi_sta_enabled c1 \<longrightarrow>
            out = Return (True, c1\<lparr>wifi_was_initialized := True\<rparr>) \<and>
            fx = map EspCall (init_calls @ [esp_wifi_set_mode WIFI_MODE_STA, esp_wifi_stop])) \<and>
         (wifi_sta_enabled c1 \<longrightarrow>
            (is_Blocked out \<longleftrightarrow>
               (\<forall>v \<in> set timeline. v AND WIFI_CONNECTED_BIT = 0 \<and> v AND WIFI_FAIL_BIT = 0)) \<and>
            \<not> is_Abort out \<and>
            (\<forall>b c'. out = Return (b, c') \<longrightarrow>
               (\<exists>bits \<in> set timeline.
                  xEventGroupWaitBits timeline (WIFI_CONNECTED_BIT OR WIFI_FAIL_BIT) = Some bits \<and>
                  (bits AND WIFI_CONNECTED_BIT \<noteq> 0 \<or> bits AND WIFI_FAIL_BIT \<noteq> 0) \<and>
                  (TaskCreate ''wifi_sta_task'' \<in> set fx \<longleftrightarrow> bits AND WIFI_CONNECTED_BIT \<noteq> 0) \<and>
                  (b \<longleftrightarrow> bits AND WIFI_CONNECTED_BIT \<noteq> 0) \<and>
                  (bits AND WIFI_CONNECTED_BIT = 0 \<longrightarrow>
                     bits AND WIFI_FAIL_BIT \<noteq> 0 \<and> \<not> b \<and>
                     run_wifi_sta_task c' = run_wifi_sta_task c1))))"
proof -
  have off: "out = Return (True, c1\<lparr>wifi_was_initialized := True\<rparr>) \<and>
            fx = map EspCall (init_calls @ [esp_wifi_set_mode WIFI_MODE_STA, esp_wifi_stop])"
    if "\<not> wifi_ap_enabled c1" "\<not> wifi_sta_enabled c1"
    using WiFiInit_disabled [where ok = ok and c = c and ipinit = ipinit and cm = c1
        and timeline = timeline, OF assms(1,2) that] assms(3) by simp
  have sta: "(is_Blocked out \<longleftrightarrow>
               (\<forall>v \<in> set timeline. v AND WIFI_CONNECTED_BIT = 0 \<and> v AND WIFI_FAIL_BIT = 0)) \<and>
            \<not> is_Abort out \<and>
            (\<forall>b c'. out = Return (b, c') \<longrightarrow>
               (\<exists>bits \<in> set timeline.
                  xEventGroupWaitBits timeline (WIFI_CONNECTED_BIT OR WIFI_FAIL_BIT) = Some bits \<and>
                  (bits AND WIFI_CONNECTED_BIT \<noteq> 0 \<or> bits AND WIFI_FAIL_BIT \<noteq> 0) \<and>
                  (TaskCreate ''wifi_sta_task'' \<in> set fx \<longleftrightarrow> bits AND WIFI_CONNECTED_BIT \<noteq> 0) \<and>
                  (b \<longleftrightarrow> bits AND WIFI_CONNECTED_BIT \<noteq> 0) \<and>
                  (bits AND WIFI_CONNECTED_BIT = 0 \<longrightarrow>
                     bits AND WIFI_FAIL_BIT \<noteq> 0 \<and> \<not> b \<and>
                     run_wifi_sta_task c' = run_wifi_sta_task c1)))"
    if en: "wifi_sta_enabled c1"
  proof -
    define c3 where "c3 = (if wifi_ap_enabled c1
               then c1\<lparr>wifi_was_initialized := True, run_wifi_ap_task := True\<rparr>
               else c1\<lparr>wifi_was_initialized := True\<rparr>)"
    define fx3 where "fx3 = map EspCall (init_calls @
           [esp_wifi_set_mode (if wifi_ap_enabled c1 then WIFI_MODE_APSTA else WIFI_MODE_STA)] @
           (if wifi_ap_enabled c1 then [esp_wifi_set_config_ap] else []) @
           [esp_wifi_set_config_sta, esp_wifi_start]) @
           (if wifi_ap_enabled c1 then [TaskCreate ''wifi_ap_task''] else [])"
    have no_task: "TaskCreate ''wifi_sta_task'' \<notin> set fx3"
      by (auto simp: fx3_def)
    have run3: "run_wifi_sta_task c3 = run_wifi_sta_task c1"
      by (simp add: c3_def)
    note w = WiFiInit_station [where ok = ok and c = c and ipinit = ipinit and cm = c1
        and cn = c3 and fxn = fx3 and timeline = timeline, OF assms(1,2) en c3_def fx3_def]
    show ?thesis
    proof (cases "xEventGroupWaitBits timeline (WIFI_CONNECTED_BIT OR WIFI_FAIL_BIT)")
      case None
      with w assms(3) have "out = Blocked" by simp
      moreover from None have "\<forall>v \<in> set timeline. v AND WIFI_CONNECTED_BIT = 0 \<and> v AND WIFI_FAIL_BIT = 0"
        using and_either_bit by (auto simp: wait_blocked)
      ultimately show ?thesis by simp
    next
      case (Some bits)
      from wait_returned [OF Some] have mem: "bits \<in> set timeline"
        and either: "bits AND WIFI_CONNECTED_BIT \<noteq> 0 \<or> bits AND WIFI_FAIL_BIT \<noteq> 0"
        using and_either_bit by auto
      have nb: "\<not> (\<forall>v \<in> set timeline. v AND WIFI_CONNECTED_BIT = 0 \<and> v AND WIFI_FAIL_BIT = 0)"
        using mem either by blast
      show ?thesis
      proof (cases "bits AND WIFI_CONNECTED_BIT \<noteq> 0")
        case True
        with w Some assms(3) have
          "out = Return (True, c3\<lparr>run_wifi_sta_task := True\<rparr>)"
          "fx = fx3 @ [TaskCreate ''wifi_sta_task'']" by simp_all
        with True mem either nb Some show ?thesis by auto
      next
        case False
        with w Some assms(3) have "out = Return (False, c3)" "fx = fx3" by simp_all
        with False mem either nb Some no_task run3 show ?thesis by auto
      qed
    qed
  qed
  from off sta show ?thesis by blast
qed

theorem init_waits_for_signal_witness:
  "is_Return (snd (WiFiInit (IPInit plain_absent) (\<lambda>call. True) [0, 2]
      (boot_manager :: (16, bool) CommsManager))) \<and>
   \<not> fst (returned (snd (WiFiInit (IPInit plain_absent) (\<lambda>call. True) [0, 2]
      (boot_manager :: (16, bool) CommsManager)))) \<and>
   TaskCreate ''wifi_sta_task'' \<notin> set (fst (WiFiInit (IPInit plain_absent) (\<lambda>call. True) [0, 2]
      (boot_manager :: (16, bool) CommsManager)))"
proof -
  let ?c = "boot_manager :: (16, bool) CommsManager"
  let ?w = "WiFiInit (IPInit plain_absent) (\<lambda>call. True) [0, 2] ?c"
  define c1 where "c1 = (if \<not> ip_event_handler_was_initialized ?c
      then IPInit plain_absent ?c else ?c)"
  have en: "wifi_sta_enabled c1"
    by (simp add: c1_def boot_manager_def plain_absent_def)
  have ok: "\<forall>call. (\<lambda>call. True) call" by simp
  have r: "is_Return (snd ?w)" by code_simp
  then obtain b c' where out: "snd ?w = Return (b, c')" by (cases "snd ?w") auto
  have run: "?w = (fst ?w, Return (b, c'))" using out by (simp add: prod_eq_iff)
  from init_waits_for_signal [where ok = "\<lambda>call. True" and c = ?c
      and ipinit = "IPInit plain_absent" and ?c1.0 = c1, OF ok c1_def run] en
  obtain bits where "bits \<in> set [0, 2 :: 32 word]"
    and "TaskCreate ''wifi_sta_task'' \<in> set (fst ?w) \<longleftrightarrow> bits AND WIFI_CONNECTED_BIT \<noteq> 0"
    and "b \<longleftrightarrow> bits AND WIFI_CONNECTED_BIT \<noteq> 0"
    by blast
  then have "\<not> b" and "TaskCreate ''wifi_sta_task'' \<notin> set (fst ?w)"
    by (auto simp: WIFI_CONNECTED_BIT_def)
  with r out show ?thesis by simp
qed

text \<open>
  C7 as stated fails when the value read from the event group has both bits set, as it
  has after the reconnects were used up and the link came up later: the failed bit is
  observed, and \<open>WiFiInit\<close> starts the forwarder task and returns success.
\<close>

theorem init_succeeds_with_failed_bit_set:
  "wifi_event_group (comms_manager (failed_then_connected :: (16, bool) firmware)) = 3 \<and>
   fail_signalled (comms_manager (failed_then_connected :: (16, bool) firmware)) \<and>
   snd (WiFiInit (IPInit plain_absent) (\<lambda>call. True)
         [wifi_event_group (comms_manager (failed_then_connected :: (16, bool) firmware))]
         (comms_manager failed_then_connected)) =
     Return (True, (comms_manager failed_then_connected)
        \<lparr>wifi_was_initialized := True, ip_event_handler_was_initialized := True,
         run_wifi_ap_task := True, run_wifi_sta_task := True\<rparr>) \<and>
   TaskCreate ''wifi_sta_task'' \<in> set (fst (WiFiInit (IPInit plain_absent) (\<lambda>call. True)
         [wifi_event_group (comms_manager (failed_then_connected :: (16, bool) firmware))]
         (comms_manager failed_then_connected)))"
  by code_simp

section \<open>The feeds, one by one\<close>

lemma put_slot_at:
  "locals_wf n l \<Longrightarrow> j < n \<Longrightarrow>
   slot_at (put_slot i sl l) j = (if j = i then sl else slot_at l j)"
  by (auto simp: locals_wf_def slot_at_def put_slot_def)

lemma put_slot_wf: "locals_wf n l \<Longrightarrow> locals_wf n (put_slot i sl l)"
  by (simp add: locals_wf_def put_slot_def)

text \<open>
  The loop over the feeds does to feed \<open>j\<close> what the body does to the entries of feed
  \<open>j\<close>, and nothing else.
\<close>

lemma feeds_loop_slot:
  "locals_wf n l \<Longrightarrow> length cnts = n \<Longrightarrow> i + k \<le> n \<Longrightarrow>
   feeds_loop valid codec settings p envs k i (l, cnts) = (fxs, l', cnts') \<Longrightarrow>
   length fxs = k \<and> locals_wf n l' \<and> length cnts' = n \<and>
   (\<forall>j < n. if i \<le> j \<and> j < i + k
      then feed_slot_step valid codec (settings_at settings j) p (envs j) (slot_at l j, cnts ! j) =
             (fxs ! (j - i), slot_at l' j, cnts' ! j)
      else slot_at l' j = slot_at l j \<and> cnts' ! j = cnts ! j)"
proof (induction k arbitrary: i l cnts fxs)
  case 0
  then show ?case by auto
next
  case (Suc k)
  obtain fx sl cnt where b: "feed_slot_step valid codec (settings_at settings i) p (envs i)
      (slot_at l i, cnts ! i) = (fx, sl, cnt)"
    by (cases "feed_slot_step valid codec (settings_at settings i) p (envs i) (slot_at l i, cnts ! i)")
  obtain fxs1 where r: "feeds_loop valid codec settings p envs k (Suc i)
      (put_slot i sl l, cnts[i := cnt]) = (fxs1, l', cnts')" and fxs: "fxs = fx # fxs1"
    using Suc.prems(4) b by (auto split: prod.splits)
  have wf1: "locals_wf n (put_slot i sl l)" using Suc.prems(1) by (rule put_slot_wf)
  have len1: "length (cnts[i := cnt]) = n" using Suc.prems(2) by simp
  have le1: "Suc i + k \<le> n" using Suc.prems(3) by simp
  have i: "i < n" using Suc.prems(3) by simp
  note ih = Suc.IH [OF wf1 len1 le1 r]
  have "length fxs = Suc k" using ih fxs by simp
  moreover have "locals_wf n l'" "length cnts' = n" using ih by simp_all
  moreover have "if i \<le> j \<and> j < i + Suc k
      then feed_slot_step valid codec (settings_at settings j) p (envs j) (slot_at l j, cnts ! j) =
             (fxs ! (j - i), slot_at l' j, cnts' ! j)
      else slot_at l' j = slot_at l j \<and> cnts' ! j = cnts ! j" if j: "j < n" for j
  proof -
    from ih j have rest: "if Suc i \<le> j \<and> j < Suc i + k
      then feed_slot_step valid codec (settings_at settings j) p (envs j)
             (slot_at (put_slot i sl l) j, cnts[i := cnt] ! j) =
             (fxs1 ! (j - Suc i), slot_at l' j, cnts' ! j)
      else slot_at l' j = slot_at (put_slot i sl l) j \<and> cnts' ! j = cnts[i := cnt] ! j"
      by blast
    consider (lt) "j < i" | (eq) "j = i" | (gt) "i < j" by linarith
    then show ?thesis
    proof cases
      case lt
      with rest j Suc.prems(1,2) show ?thesis by (auto simp: put_slot_at split: if_splits)
    next
      case eq
      with rest j i Suc.prems(1,2) b fxs show ?thesis by (auto simp: put_slot_at split: if_splits)
    next
      case gt
      then have "fxs ! (j - i) = fxs1 ! (j - Suc i)" using fxs by (simp add: nth_Cons')
      with gt rest j Suc.prems(1,2) show ?thesis by (auto simp: put_slot_at split: if_splits)
    qed
  qed
  ultimately show ?case by blast
qed

lemma iteration_slot:
  assumes "locals_wf n l" and "length (feed_mps_counter c) = n" and "i < n"
    and "WiFiStationTask_iteration valid codec n settings timestamp_ms envs (c, l) = (fxs, c', l')"
  shows "slot_run valid codec (turns_of_iteration settings timestamp_ms envs c i)
           (slot_at l i, feed_mps_counter c ! i) =
           ((if fxs = [] then [] else fxs ! i), slot_at l' i, feed_mps_counter c' ! i) \<and>
         locals_wf n l' \<and> length (feed_mps_counter c') = n"
proof -
  define c1 where "c1 = update_feed_stats timestamp_ms c"
  have q1: "wifi_sta_decoded_transponder_packet_queue c1 = wifi_sta_decoded_transponder_packet_queue c"
    by (simp add: c1_def update_feed_stats_def)
  have len1: "length (feed_mps_counter c1) = n"
    using assms(2) by (simp add: c1_def update_feed_stats_def)
  have stats: "slot_run valid codec
      (if timestamp_ms - feed_mps_last_update_timestamp_ms c > kMsPerSec then [StatsUpdate] else [])
      (slot_at l i, feed_mps_counter c ! i) = ([], slot_at l i, feed_mps_counter c1 ! i)"
    using assms(2,3) by (simp add: c1_def update_feed_stats_def)
  show ?thesis
  proof (cases "items (wifi_sta_decoded_transponder_packet_queue c)")
    case Nil
    then have "xQueueReceive (wifi_sta_decoded_transponder_packet_queue c1) = None"
      by (simp add: xQueueReceive_def q1)
    with assms(4) have r: "fxs = []" "c' = c1" "l' = l"
      by (simp_all add: WiFiStationTask_iteration_def c1_def [symmetric] Let_def)
    have "slot_run valid codec (turns_of_iteration settings timestamp_ms envs c i)
           (slot_at l i, feed_mps_counter c ! i) = ([], slot_at l i, feed_mps_counter c1 ! i)"
      using assms(2,3) Nil
      by (auto simp: turns_of_iteration_def c1_def update_feed_stats_def split: if_splits)
    with r assms(1) len1 show ?thesis by simp
  next
    case (Cons p rest)
    then have rcv: "xQueueReceive (wifi_sta_decoded_transponder_packet_queue c1) =
        Some (p, (wifi_sta_decoded_transponder_packet_queue c1)\<lparr>items := rest\<rparr>)"
      by (simp add: xQueueReceive_def q1)
    obtain cnts where loop: "feeds_loop valid codec settings p envs n 0 (l, feed_mps_counter c1) =
        (fxs, l', cnts)" and c': "feed_mps_counter c' = cnts"
      using assms(4) rcv
      by (auto simp: WiFiStationTask_iteration_def c1_def [symmetric] Let_def split: prod.splits)
    from feeds_loop_slot [OF assms(1) len1 _ loop] assms(3)
    have len: "length fxs = n" and wf: "locals_wf n l'" and lc: "length cnts = n"
      and step: "feed_slot_step valid codec (settings_at settings i) p (envs i)
          (slot_at l i, feed_mps_counter c1 ! i) = (fxs ! i, slot_at l' i, cnts ! i)"
      by auto
    have ne: "fxs \<noteq> []" using len assms(3) by auto
    have "slot_run valid codec (turns_of_iteration settings timestamp_ms envs c i)
           (slot_at l i, feed_mps_counter c ! i) = (fxs ! i, slot_at l' i, cnts ! i)"
      using assms(2,3) Cons step
      by (auto simp: turns_of_iteration_def c1_def update_feed_stats_def split: if_splits)
    with ne wf lc c' show ?thesis by simp
  qed
qed

section \<open>Sending on a connected Beast feed\<close>

lemma send_beast_trace:
  "send_beast codec cfg p env (sl, cnt) = (fx, sl', cnt') \<Longrightarrow>
   filter is_socket_send fx = [SocketSend (sock sl) (codec p (cfg_receiver_id cfg))] \<and>
   (0 \<le> send_ret env \<longrightarrow>
      fx = [SocketSend (sock sl) (codec p (cfg_receiver_id cfg))] \<and> cnt' = cnt + 1 \<and> sl' = sl) \<and>
   (send_ret env < 0 \<longrightarrow>
      fx = [SocketSend (sock sl) (codec p (cfg_receiver_id cfg)), SocketClose (sock sl)] \<and>
      cnt' = cnt \<and> sl' = sl\<lparr>is_connected := False\<rparr>)"
  by (auto simp: send_beast_def split: if_splits)

lemma connected_beast_step:
  assumes "cfg_is_active cfg" and "is_connected sl" and "cfg_protocol cfg = kBeast"
    and "feed_slot_step valid codec cfg p env (sl, cnt) = (fx, sl', cnt')"
  shows "(\<not> valid p \<longrightarrow> fx = [] \<and> cnt' = cnt \<and> sl' = sl) \<and>
         (valid p \<longrightarrow>
            filter is_socket_send fx = [SocketSend (sock sl) (codec p (cfg_receiver_id cfg))] \<and>
            (0 \<le> send_ret env \<longrightarrow>
               fx = [SocketSend (sock sl) (codec p (cfg_receiver_id cfg))] \<and> cnt' = cnt + 1 \<and>
               sl' = sl) \<and>
            (send_ret env < 0 \<longrightarrow> cnt' = cnt))"
proof (cases "valid p")
  case False
  with assms show ?thesis by (simp add: feed_slot_step_def send_packet_def)
next
  case True
  with assms have "send_beast codec cfg p env (sl, cnt) = (fx, sl', cnt')"
    by (simp add: feed_slot_step_def send_packet_def)
  from send_beast_trace [OF this] True show ?thesis by simp
qed

text \<open>
  C3. In the loop over the feeds, take a feed \<open>i\<close> that is marked connected and set
  to the Beast protocol, in the branch of the loop body that sends: the feed is
  configured active. If the packet is not valid, nothing is done for the feed: no send,
  and its message counter is what it was. If the packet is valid, exactly one frame is
  sent on the feed's socket, the one the codec makes of the packet and the feed's
  receiver id; when the send succeeds the counter goes up by one (in the counter's own
  arithmetic, and as a number unless the counter was at its maximum), and when it fails
  the counter stays.
\<close>

theorem beast_feed_sends_valid_packets:
  assumes "locals_wf n l" and "length cnts = n" and "i < n"
    and "feed_is_active settings ! i" and "feed_sock_is_connected l ! i"
    and "feed_protocols settings ! i = kBeast"
    and "feeds_loop valid codec settings p envs n 0 (l, cnts) = (fxs, l', cnts')"
  shows "(\<not> valid p \<longrightarrow> fxs ! i = [] \<and> cnts' ! i = cnts ! i) \<and>
         (valid p \<longrightarrow>
            filter is_socket_send (fxs ! i) =
              [SocketSend (feed_sock l ! i) (codec p (feed_receiver_ids settings ! i))] \<and>
            (0 \<le> send_ret (envs i) \<longrightarrow>
               fxs ! i = [SocketSend (feed_sock l ! i) (codec p (feed_receiver_ids settings ! i))] \<and>
               cnts' ! i = cnts ! i + 1 \<and>
               (cnts ! i + 1 \<noteq> 0 \<longrightarrow> unat (cnts' ! i) = unat (cnts ! i) + 1)) \<and>
            (send_ret (envs i) < 0 \<longrightarrow> cnts' ! i = cnts ! i))"
proof -
  from feeds_loop_slot [OF assms(1,2) _ assms(7)] assms(3)
  have step: "feed_slot_step valid codec (settings_at settings i) p (envs i)
          (slot_at l i, cnts ! i) = (fxs ! i, slot_at l' i, cnts' ! i)"
    by auto
  have a: "cfg_is_active (settings_at settings i)" using assms(4) by (simp add: settings_at_def)
  have b: "is_connected (slot_at l i)" using assms(5) by (simp add: slot_at_def)
  have c: "cfg_protocol (settings_at settings i) = kBeast"
    using assms(6) by (simp add: settings_at_def)
  have s: "sock (slot_at l i) = feed_sock l ! i"
    "cfg_receiver_id (settings_at settings i) = feed_receiver_ids settings ! i"
    by (simp_all add: slot_at_def settings_at_def)
  have u: "unat (cnts ! i + 1) = unat (cnts ! i) + 1" if "cnts ! i + 1 \<noteq> 0"
    using unatSuc [of "cnts ! i"] that by (simp add: add.commute)
  from connected_beast_step [OF a b c step] u show ?thesis
    unfolding s by auto
qed

theorem beast_feed_sends_valid_packets_witness:
  "fst (feeds_loop (\<lambda>p. p) (\<lambda>p rid. rid @ [if p then 1 else 0]) two_feeds True
          (all_well 20000) 2 0 (feed0_connected, [7, 0 :: 16 word])) ! 0 =
     [SocketSend 54 [1, 2, 1]] \<and>
   snd (snd (feeds_loop (\<lambda>p. p) (\<lambda>p rid. rid @ [if p then 1 else 0]) two_feeds True
          (all_well 20000) 2 0 (feed0_connected, [7, 0 :: 16 word]))) ! 0 = 8 \<and>
   fst (feeds_loop (\<lambda>p. p) (\<lambda>p rid. rid @ [if p then 1 else 0]) two_feeds False
          (all_well 20000) 2 0 (feed0_connected, [7, 0 :: 16 word])) ! 0 = [] \<and>
   snd (snd (feeds_loop (\<lambda>p. p) (\<lambda>p rid. rid @ [if p then 1 else 0]) two_feeds False
          (all_well 20000) 2 0 (feed0_connected, [7, 0 :: 16 word]))) ! 0 = 7"
proof -
  let ?codec = "\<lambda>(p :: bool) (rid :: 8 word list). rid @ [if p then 1 else 0]"
  let ?good = "feeds_loop (\<lambda>p. p) ?codec two_feeds True (all_well 20000) 2 0
      (feed0_connected, [7, 0 :: 16 word])"
  let ?bad = "feeds_loop (\<lambda>p. p) ?codec two_feeds False (all_well 20000) 2 0
      (feed0_connected, [7, 0 :: 16 word])"
  have wf: "locals_wf 2 feed0_connected" by (simp add: locals_wf_def feed0_connected_def)
  have len: "length [7, 0 :: 16 word] = 2" by simp
  have i: "(0::nat) < 2" by simp
  have a: "feed_is_active two_feeds ! 0" by (simp add: two_feeds_def)
  have b: "feed_sock_is_connected feed0_connected ! 0" by (simp add: feed0_connected_def)
  have c: "feed_protocols two_feeds ! 0 = kBeast" by (simp add: two_feeds_def)
  have g: "?good = (fst ?good, fst (snd ?good), snd (snd ?good))" by simp
  have h: "?bad = (fst ?bad, fst (snd ?bad), snd (snd ?bad))" by simp
  have s: "send_ret (all_well 20000 0) = 4" by (simp add: all_well_def)
  from beast_feed_sends_valid_packets [OF wf len i a b c g]
  have "fst ?good ! 0 = [SocketSend 54 [1, 2, 1]]" "snd (snd ?good) ! 0 = 8"
    by (simp_all add: s feed0_connected_def two_feeds_def)
  moreover from beast_feed_sends_valid_packets [OF wf len i a b c h]
  have "fst ?bad ! 0 = []" "snd (snd ?bad) ! 0 = 7"
    by simp_all
  ultimately show ?thesis by simp
qed

section \<open>Reconnecting a feed\<close>

lemma disconnected_step_quiet:
  "\<not> is_connected sl \<Longrightarrow>
   now_ms env - last_connect_timestamp_ms sl \<le> kWiFiTCPSocketReconnectIntervalMs \<Longrightarrow>
   feed_slot_step valid codec cfg p env (sl, cnt) = ([], sl, cnt)"
  by (simp add: feed_slot_step_def open_feed_socket_def)

lemma disconnected_run_quiet:
  "\<not> is_connected sl \<Longrightarrow> \<forall>t \<in> set ts. within_interval (last_connect_timestamp_ms sl) t \<Longrightarrow>
   slot_run valid codec ts (sl, cnt) = (fx, sl', cnt') \<Longrightarrow> fx = [] \<and> sl' = sl"
proof (induction ts arbitrary: cnt fx)
  case Nil
  then show ?case by simp
next
  case (Cons t ts)
  have "\<exists>cnt1. slot_turn valid codec t (sl, cnt) = ([], sl, cnt1)"
  proof (cases t)
    case StatsUpdate
    then show ?thesis by simp
  next
    case NoPacket
    then show ?thesis by simp
  next
    case (Packet cfg p env)
    with Cons.prems(2) have "now_ms env - last_connect_timestamp_ms sl \<le> kWiFiTCPSocketReconnectIntervalMs"
      by simp
    from disconnected_step_quiet [OF Cons.prems(1) this, of valid codec cfg p cnt] Packet
    show ?thesis by simp
  qed
  then obtain cnt1 where one: "slot_turn valid codec t (sl, cnt) = ([], sl, cnt1)" by blast
  with Cons.prems(3) have rest: "slot_run valid codec ts (sl, cnt1) = (fx, sl', cnt')"
    by (auto split: prod.splits)
  from Cons.IH [OF Cons.prems(1) _ rest] Cons.prems(2) show ?case by simp
qed

lemma open_feed_socket_attempt:
  "open_feed_socket cfg env sl = (fx, sl', go) \<Longrightarrow> fx \<noteq> [] \<or> go \<or> sl' \<noteq> sl \<Longrightarrow>
   kWiFiTCPSocketReconnectIntervalMs < now_ms env - last_connect_timestamp_ms sl \<and>
   last_connect_timestamp_ms sl' = now_ms env \<and> sock sl' = socket_ret env \<and>
   fx \<noteq> [] \<and> hd fx = SocketCreate (socket_ret env) \<and> (go \<longrightarrow> is_connected sl') \<and>
   (\<not> is_connected sl \<longrightarrow> is_connected sl' = go) \<and> (go \<longrightarrow> 0 < socket_ret env)"
  by (auto simp: open_feed_socket_def connect_to_def Let_def not_le
        split: if_splits option.splits)

lemma open_feed_socket_no_send:
  "open_feed_socket cfg env sl = (fx, sl', go) \<Longrightarrow> \<not> list_ex is_socket_send fx"
  by (auto simp: open_feed_socket_def connect_to_def Let_def split: if_splits option.splits)

lemma send_packet_shape:
  "send_packet valid codec cfg p env (sl, cnt) = (fx, sl', cnt') \<Longrightarrow>
   (fx = [] \<and> sl' = sl \<and> cnt' = cnt) \<or>
   (\<exists>frame. fx = [SocketSend (sock sl) frame] \<and> sl' = sl \<and> cnt' = cnt + 1 \<and> 0 \<le> send_ret env) \<or>
   (\<exists>frame. fx = [SocketSend (sock sl) frame, SocketClose (sock sl)] \<and>
      sl' = sl\<lparr>is_connected := False\<rparr> \<and> cnt' = cnt \<and> send_ret env < 0)"
  by (auto simp: send_packet_def send_beast_def split: if_splits ReportingProtocol.splits)

lemma failed_send_disconnects:
  assumes "feed_slot_step valid codec cfg p env (sl, cnt) = (fx, sl', cnt')"
    and "list_ex is_socket_send fx" and "send_ret env < 0"
  shows "\<not> is_connected sl' \<and>
         (\<exists>pre frame. fx = pre @ [SocketSend (sock sl') frame, SocketClose (sock sl')])"
proof (cases "cfg_is_active cfg")
  case False
  with assms(1,2) show ?thesis by (auto simp: feed_slot_step_def split: if_splits)
next
  case True
  show ?thesis
  proof (cases "is_connected sl")
    case c: True
    with True assms(1) have "send_packet valid codec cfg p env (sl, cnt) = (fx, sl', cnt')"
      by (simp add: feed_slot_step_def)
    from send_packet_shape [OF this] assms(2,3) show ?thesis by auto
  next
    case c: False
    obtain fx1 sl1 go where o: "open_feed_socket cfg env sl = (fx1, sl1, go)"
      by (cases "open_feed_socket cfg env sl") auto
    show ?thesis
    proof (cases go)
      case False
      with True c o assms(1) have "fx = fx1" by (simp add: feed_slot_step_def)
      moreover have "\<not> list_ex is_socket_send fx1"
        using open_feed_socket_no_send [OF o] .
      ultimately show ?thesis using assms(2) by simp
    next
      case g: True
      have ns: "\<not> list_ex is_socket_send fx1" using open_feed_socket_no_send [OF o] .
      obtain fx2 where s: "send_packet valid codec cfg p env (sl1, cnt) = (fx2, sl', cnt')"
        and fx: "fx = fx1 @ fx2"
        using True c o g assms(1) by (auto simp: feed_slot_step_def split: prod.splits)
      from send_packet_shape [OF s] assms(2,3) ns fx show ?thesis by auto
    qed
  qed
qed

lemma disconnected_step_attempt:
  assumes "feed_slot_step valid codec cfg p env (sl, cnt) = (fx, sl', cnt')"
    and "\<not> is_connected sl" and "fx \<noteq> []"
  shows "cfg_is_active cfg \<and>
         kWiFiTCPSocketReconnectIntervalMs < now_ms env - last_connect_timestamp_ms sl \<and>
         last_connect_timestamp_ms sl' = now_ms env \<and> hd fx = SocketCreate (socket_ret env)"
proof -
  have act: "cfg_is_active cfg"
    using assms by (auto simp: feed_slot_step_def split: if_splits)
  obtain fx1 sl1 go where o: "open_feed_socket cfg env sl = (fx1, sl1, go)"
    by (cases "open_feed_socket cfg env sl") auto
  show ?thesis
  proof (cases go)
    case False
    with act assms(1,2) o have "fx = fx1" "sl' = sl1" by (simp_all add: feed_slot_step_def)
    with open_feed_socket_attempt [OF o] assms(3) act show ?thesis by simp
  next
    case True
    obtain fx2 where s: "send_packet valid codec cfg p env (sl1, cnt) = (fx2, sl', cnt')"
      and fx: "fx = fx1 @ fx2"
      using act assms(1,2) o True by (auto simp: feed_slot_step_def split: prod.splits)
    from open_feed_socket_attempt [OF o] True have
      a: "kWiFiTCPSocketReconnectIntervalMs < now_ms env - last_connect_timestamp_ms sl"
      "last_connect_timestamp_ms sl1 = now_ms env" "hd fx1 = SocketCreate (socket_ret env)"
      by simp_all
    have ne: "fx1 \<noteq> []" using o True
      by (auto simp: open_feed_socket_def connect_to_def Let_def split: if_splits option.splits)
    from send_packet_shape [OF s] have "last_connect_timestamp_ms sl' = last_connect_timestamp_ms sl1"
      by auto
    with a ne fx act show ?thesis by simp
  qed
qed

lemma socket_created_when_disconnected:
  assumes "feed_slot_step valid codec cfg p env (sl, cnt) = (fx, sl', cnt')"
    and "list_ex is_socket_create fx"
  shows "\<not> is_connected sl \<and> cfg_is_active cfg"
proof -
  have "\<not> list_ex is_socket_create fx" if "is_connected sl \<or> \<not> cfg_is_active cfg"
  proof (cases "cfg_is_active cfg")
    case False
    with assms(1) show ?thesis by (auto simp: feed_slot_step_def split: if_splits)
  next
    case True
    with that have c: "is_connected sl" by simp
    with True assms(1) have "send_packet valid codec cfg p env (sl, cnt) = (fx, sl', cnt')"
      by (simp add: feed_slot_step_def)
    from send_packet_shape [OF this] show ?thesis by auto
  qed
  with assms(2) show ?thesis by blast
qed

text \<open>
  What the loop body does to a feed's socket entries, and its trace, do not depend on
  the feed's message counter.
\<close>

lemma send_packet_any_counter:
  "send_packet valid codec cfg p env (sl, cnt) = (fx, sl', cnt') \<Longrightarrow>
   \<exists>c'. send_packet valid codec cfg p env (sl, cnt2) = (fx, sl', c')"
  by (auto simp: send_packet_def send_beast_def split: if_splits ReportingProtocol.splits)

lemma feed_slot_step_any_counter:
  assumes "feed_slot_step valid codec cfg p env (sl, cnt) = (fx, sl', cnt')"
  shows "\<exists>c'. feed_slot_step valid codec cfg p env (sl, cnt2) = (fx, sl', c')"
proof (cases "cfg_is_active cfg")
  case False
  with assms show ?thesis by (auto simp: feed_slot_step_def split: if_splits)
next
  case True
  show ?thesis
  proof (cases "is_connected sl")
    case c: True
    with True assms have "send_packet valid codec cfg p env (sl, cnt) = (fx, sl', cnt')"
      by (simp add: feed_slot_step_def)
    from send_packet_any_counter [OF this, of cnt2] True c show ?thesis
      by (simp add: feed_slot_step_def)
  next
    case c: False
    obtain fx1 sl1 go where o: "open_feed_socket cfg env sl = (fx1, sl1, go)"
      by (cases "open_feed_socket cfg env sl") auto
    show ?thesis
    proof (cases go)
      case False
      with True c o assms show ?thesis by (simp add: feed_slot_step_def)
    next
      case g: True
      obtain fx2 where s: "send_packet valid codec cfg p env (sl1, cnt) = (fx2, sl', cnt')"
        and fx: "fx = fx1 @ fx2"
        using True c o g assms by (auto simp: feed_slot_step_def split: prod.splits)
      from send_packet_any_counter [OF s, of cnt2] obtain c' where
        "send_packet valid codec cfg p env (sl1, cnt2) = (fx2, sl', c')" by blast
      with True c o g fx show ?thesis by (simp add: feed_slot_step_def)
    qed
  qed
qed

lemma slot_run_any_counter:
  "slot_run valid codec ts (sl, cnt) = (fx, sl', cnt') \<Longrightarrow>
   \<exists>c'. slot_run valid codec ts (sl, cnt2) = (fx, sl', c')"
proof (induction ts arbitrary: sl cnt cnt2 fx)
  case Nil
  then show ?case by simp
next
  case (Cons t ts)
  obtain fx1 sl1 cnt1 where one: "slot_turn valid codec t (sl, cnt) = (fx1, sl1, cnt1)"
    by (cases "slot_turn valid codec t (sl, cnt)") auto
  obtain fx2 where rest: "slot_run valid codec ts (sl1, cnt1) = (fx2, sl', cnt')"
    and fx: "fx = fx1 @ fx2"
    using Cons.prems one by (auto split: prod.splits)
  have "\<exists>c1. slot_turn valid codec t (sl, cnt2) = (fx1, sl1, c1)"
  proof (cases t)
    case StatsUpdate
    with one show ?thesis by simp
  next
    case NoPacket
    with one show ?thesis by simp
  next
    case (Packet cfg p env)
    with one feed_slot_step_any_counter [of valid codec cfg p env sl cnt fx1 sl1 cnt1 cnt2]
    show ?thesis by simp
  qed
  then obtain c1 where one2: "slot_turn valid codec t (sl, cnt2) = (fx1, sl1, c1)" by blast
  from Cons.IH [OF rest, of c1] obtain c' where
    "slot_run valid codec ts (sl1, c1) = (fx2, sl', c')" by blast
  with one2 fx show ?case by simp
qed

lemma slot_run_append:
  "slot_run valid codec (a @ b) st =
     (case slot_run valid codec a st of
        (fx, st') \<Rightarrow> (case slot_run valid codec b st' of (fx', st'') \<Rightarrow> (fx @ fx', st'')))"
  by (induction a arbitrary: st) (auto split: prod.splits)

text \<open>
  Over any iterations of the task, the entries of feed \<open>i\<close> and the trace of feed \<open>i\<close>
  are those of the turns feed \<open>i\<close> sees, run one after the other.
\<close>

lemma iterations_slot:
  "locals_wf n l \<Longrightarrow> i < n \<Longrightarrow>
   \<forall>(settings, timestamp_ms, envs, c) \<in> set inputs. length (feed_mps_counter c) = n \<Longrightarrow>
   WiFiStationTask_iterations valid codec n inputs l = (fxss, l') \<Longrightarrow>
   locals_wf n l' \<and>
   (\<exists>cnt'. slot_run valid codec (turns_of_feed i inputs) (slot_at l i, cnt) =
             (trace_of_feed i fxss, slot_at l' i, cnt'))"
proof (induction inputs arbitrary: l fxss cnt)
  case Nil
  then show ?case by (simp add: turns_of_feed_def trace_of_feed_def)
next
  case (Cons input rest)
  obtain settings timestamp_ms envs c where input: "input = (settings, timestamp_ms, envs, c)"
    by (cases input) auto
  obtain fxs c1 l1 where one: "WiFiStationTask_iteration valid codec n settings timestamp_ms envs
      (c, l) = (fxs, c1, l1)"
    by (cases "WiFiStationTask_iteration valid codec n settings timestamp_ms envs (c, l)") auto
  obtain fxss1 where more: "WiFiStationTask_iterations valid codec n rest l1 = (fxss1, l')"
    and fxss: "fxss = fxs # fxss1"
    using Cons.prems(4) input one by (auto split: prod.splits)
  have len: "length (feed_mps_counter c) = n" using Cons.prems(3) input by simp
  have all: "\<forall>(settings, timestamp_ms, envs, c) \<in> set rest. length (feed_mps_counter c) = n"
    using Cons.prems(3) by simp
  from iteration_slot [OF Cons.prems(1) len Cons.prems(2) one]
  have first: "slot_run valid codec (turns_of_iteration settings timestamp_ms envs c i)
           (slot_at l i, feed_mps_counter c ! i) =
           ((if fxs = [] then [] else fxs ! i), slot_at l1 i, feed_mps_counter c1 ! i)"
    and wf1: "locals_wf n l1" by simp_all
  from slot_run_any_counter [OF first, of cnt] obtain k where
    first': "slot_run valid codec (turns_of_iteration settings timestamp_ms envs c i)
           (slot_at l i, cnt) = ((if fxs = [] then [] else fxs ! i), slot_at l1 i, k)"
    by blast
  from Cons.IH [OF wf1 Cons.prems(2) all more, of k] obtain cnt' where
    wf: "locals_wf n l'" and
    later: "slot_run valid codec (turns_of_feed i rest) (slot_at l1 i, k) =
             (trace_of_feed i fxss1, slot_at l' i, cnt')"
    by blast
  have "slot_run valid codec (turns_of_feed i (input # rest)) (slot_at l i, cnt) =
             (trace_of_feed i fxss, slot_at l' i, cnt')"
    using first' later
    by (simp add: turns_of_feed_def trace_of_feed_def input fxss slot_run_append)
  with wf show ?case by blast
qed

text \<open>An iteration with a packet runs the loop body for feed \<open>i\<close>; one without does nothing.\<close>

lemma iteration_body:
  fixes c :: "('w::len, 'p) CommsManager"
  assumes "locals_wf n l" and "length (feed_mps_counter c) = n" and "i < n"
    and "items (wifi_sta_decoded_transponder_packet_queue c) = p # rest"
    and "WiFiStationTask_iteration valid codec n settings timestamp_ms envs (c, l) = (fxs, c', l')"
  shows "locals_wf n l' \<and> length fxs = n \<and>
         (\<exists>(k :: 'w word) (k' :: 'w word).
            feed_slot_step valid codec (settings_at settings i) p (envs i) (slot_at l i, k) =
              (fxs ! i, slot_at l' i, k'))"
proof -
  define c1 where "c1 = update_feed_stats timestamp_ms c"
  have q1: "wifi_sta_decoded_transponder_packet_queue c1 = wifi_sta_decoded_transponder_packet_queue c"
    by (simp add: c1_def update_feed_stats_def)
  have len1: "length (feed_mps_counter c1) = n"
    using assms(2) by (simp add: c1_def update_feed_stats_def)
  have rcv: "xQueueReceive (wifi_sta_decoded_transponder_packet_queue c1) =
      Some (p, (wifi_sta_decoded_transponder_packet_queue c1)\<lparr>items := rest\<rparr>)"
    using assms(4) by (simp add: xQueueReceive_def q1)
  obtain cnts where loop: "feeds_loop valid codec settings p envs n 0 (l, feed_mps_counter c1) =
      (fxs, l', cnts)"
    using assms(5) rcv
    by (auto simp: WiFiStationTask_iteration_def c1_def [symmetric] Let_def split: prod.splits)
  from feeds_loop_slot [OF assms(1) len1 _ loop] assms(3)
  have "length fxs = n" and "locals_wf n l'"
    and "feed_slot_step valid codec (settings_at settings i) p (envs i)
          (slot_at l i, feed_mps_counter c1 ! i) = (fxs ! i, slot_at l' i, cnts ! i)"
    by auto
  then show ?thesis by blast
qed

lemma iteration_without_packet:
  "items (wifi_sta_decoded_transponder_packet_queue c) = [] \<Longrightarrow>
   WiFiStationTask_iteration valid codec n settings timestamp_ms envs (c, l) =
     ([], update_feed_stats timestamp_ms c, l)"
  by (simp add: WiFiStationTask_iteration_def Let_def xQueueReceive_def update_feed_stats_def)

lemma window_start_kept:
  assumes "feed_slot_step valid codec cfg p env (sl, cnt) = (fx, sl', cnt')"
    and "\<not> list_ex is_socket_create fx"
  shows "last_connect_timestamp_ms sl' = last_connect_timestamp_ms sl"
proof (cases "cfg_is_active cfg \<and> \<not> is_connected sl")
  case False
  show ?thesis
  proof (cases "cfg_is_active cfg")
    case False
    with assms(1) show ?thesis by (auto simp: feed_slot_step_def split: if_splits)
  next
    case True
    with False assms(1) have "send_packet valid codec cfg p env (sl, cnt) = (fx, sl', cnt')"
      by (simp add: feed_slot_step_def)
    from send_packet_shape [OF this] show ?thesis by auto
  qed
next
  case True
  obtain fx1 sl1 go where o: "open_feed_socket cfg env sl = (fx1, sl1, go)"
    by (cases "open_feed_socket cfg env sl") auto
  have pre: "\<exists>fx2. fx = fx1 @ fx2"
    using True o assms(1) by (auto simp: feed_slot_step_def split: if_splits prod.splits)
  have quiet: "\<not> (fx1 \<noteq> [] \<or> go \<or> sl1 \<noteq> sl)"
  proof
    assume "fx1 \<noteq> [] \<or> go \<or> sl1 \<noteq> sl"
    from open_feed_socket_attempt [OF o this]
    have "fx1 \<noteq> []" "hd fx1 = SocketCreate (socket_ret env)" by simp_all
    then have "list_ex is_socket_create fx1" by (cases fx1) auto
    with pre assms(2) show False by auto
  qed
  with True o assms(1) show ?thesis by (simp add: feed_slot_step_def)
qed

lemma disconnected_step_reconnects:
  assumes "feed_slot_step valid codec cfg p env (sl, cnt) = (fx, sl', cnt')"
    and "cfg_is_active cfg" and "\<not> is_connected sl"
    and "kWiFiTCPSocketReconnectIntervalMs < now_ms env - last_connect_timestamp_ms sl"
  shows "fx \<noteq> [] \<and> hd fx = SocketCreate (socket_ret env)"
proof -
  obtain fx1 sl1 go where o: "open_feed_socket cfg env sl = (fx1, sl1, go)"
    by (cases "open_feed_socket cfg env sl") auto
  have pre: "\<exists>fx2. fx = fx1 @ fx2"
    using assms(1-3) o by (auto simp: feed_slot_step_def split: if_splits prod.splits)
  have "fx1 \<noteq> [] \<and> hd fx1 = SocketCreate (socket_ret env)"
    using o assms(4)
    by (auto simp: open_feed_socket_def connect_to_def Let_def not_le [symmetric]
          split: if_splits option.splits)
  with pre show ?thesis by auto
qed

text \<open>
  One run of the loop body for a feed, and any turns after it: a failed send, the quiet
  interval, and what moves the start of the interval.
\<close>

lemma slot_reconnect_rate_limited:
  assumes "feed_slot_step valid codec cfg p env (sl, cnt) = (fx, sl', cnt')"
    and "slot_run valid codec ts (sl', cnt') = (fx2, sl2, cnt2)"
  shows "(list_ex is_socket_send fx \<and> send_ret env < 0 \<longrightarrow>
            \<not> is_connected sl' \<and>
            (\<exists>pre frame. fx = pre @ [SocketSend (sock sl') frame, SocketClose (sock sl')])) \<and>
         (\<not> is_connected sl' \<and>
          (\<forall>t \<in> set ts. within_interval (last_connect_timestamp_ms sl') t) \<longrightarrow>
            fx2 = [] \<and> sl2 = sl') \<and>
         (\<not> is_connected sl \<and> fx \<noteq> [] \<longrightarrow>
            cfg_is_active cfg \<and>
            kWiFiTCPSocketReconnectIntervalMs < now_ms env - last_connect_timestamp_ms sl \<and>
            last_connect_timestamp_ms sl' = now_ms env \<and>
            hd fx = SocketCreate (socket_ret env)) \<and>
         (\<not> is_connected sl \<and> cfg_is_active cfg \<and>
          kWiFiTCPSocketReconnectIntervalMs < now_ms env - last_connect_timestamp_ms sl \<longrightarrow>
            fx \<noteq> [] \<and> hd fx = SocketCreate (socket_ret env)) \<and>
         (list_ex is_socket_create fx \<longrightarrow>
            \<not> is_connected sl \<and> last_connect_timestamp_ms sl' = now_ms env) \<and>
         (\<not> list_ex is_socket_create fx \<longrightarrow>
            last_connect_timestamp_ms sl' = last_connect_timestamp_ms sl)"
proof -
  have a: "\<not> is_connected sl' \<and>
            (\<exists>pre frame. fx = pre @ [SocketSend (sock sl') frame, SocketClose (sock sl')])"
    if "list_ex is_socket_send fx" "send_ret env < 0"
    using failed_send_disconnects [OF assms(1) that] .
  have b: "fx2 = [] \<and> sl2 = sl'"
    if "\<not> is_connected sl'" "\<forall>t \<in> set ts. within_interval (last_connect_timestamp_ms sl') t"
    using disconnected_run_quiet [OF that assms(2)] .
  have c: "cfg_is_active cfg \<and>
            kWiFiTCPSocketReconnectIntervalMs < now_ms env - last_connect_timestamp_ms sl \<and>
            last_connect_timestamp_ms sl' = now_ms env \<and>
            hd fx = SocketCreate (socket_ret env)"
    if "\<not> is_connected sl" "fx \<noteq> []"
    using disconnected_step_attempt [OF assms(1) that] .
  have d: "\<not> is_connected sl \<and> last_connect_timestamp_ms sl' = now_ms env"
    if s: "list_ex is_socket_create fx"
  proof -
    from socket_created_when_disconnected [OF assms(1) s] have n: "\<not> is_connected sl" by simp
    moreover have "fx \<noteq> []" using s by auto
    ultimately show ?thesis using disconnected_step_attempt [OF assms(1)] by simp
  qed
  have e: "last_connect_timestamp_ms sl' = last_connect_timestamp_ms sl"
    if "\<not> list_ex is_socket_create fx"
    using window_start_kept [OF assms(1) that] .
  have f: "fx \<noteq> [] \<and> hd fx = SocketCreate (socket_ret env)"
    if "\<not> is_connected sl" "cfg_is_active cfg"
      "kWiFiTCPSocketReconnectIntervalMs < now_ms env - last_connect_timestamp_ms sl"
    using disconnected_step_reconnects [OF assms(1) that(2,1,3)] .
  from a b c d e f show ?thesis by blast
qed

section \<open>Reconnecting a feed, in the task\<close>

text \<open>
  C2, with the interval counted, as the code counts it, from the feed's last connection
  attempt (the clock is a 32-bit count of milliseconds, and differences are taken modulo
  \<open>2 ^ 32\<close>, as in the source). Take an iteration of the task that has a packet, a
  feed \<open>i\<close>, and any iterations after it. If a send was made for the feed and
  failed, the socket is closed right after it and the feed is marked disconnected. From
  a feed marked disconnected, iterations whose clock is within 5000 ms of the feed's last
  attempt do nothing at all for it: no send, no call of \<open>socket\<close>, its entries
  unchanged. When the loop body does anything for a feed marked disconnected, it is a
  connection attempt: the feed is active, more than 5000 ms have passed since its last
  attempt, and the attempt's time is the new start of the interval. The start of the
  interval moves only when \<open>socket\<close> is called, and \<open>socket\<close> is called only
  for a feed marked disconnected. A feed that is active and marked disconnected is tried
  again by an iteration with a packet as soon as more than 5000 ms have passed since its
  last attempt, however short the time since a failed send.
\<close>

theorem feed_reconnect_rate_limited:
  fixes c :: "('w::len, 'p) CommsManager"
    and inputs :: "(Settings \<times> 32 word \<times> (nat \<Rightarrow> feed_env) \<times> ('w, 'p) CommsManager) list"
  assumes "locals_wf n l" and "i < n" and "length (feed_mps_counter c) = n"
    and "items (wifi_sta_decoded_transponder_packet_queue c) = p # rest"
    and "WiFiStationTask_iteration valid codec n settings timestamp_ms envs (c, l) = (fxs, c1, l1)"
    and "\<forall>(settings, timestamp_ms, envs, c) \<in> set inputs. length (feed_mps_counter c) = n"
    and "WiFiStationTask_iterations valid codec n inputs l1 = (fxss, l2)"
  shows "(list_ex is_socket_send (fxs ! i) \<and> send_ret (envs i) < 0 \<longrightarrow>
            \<not> feed_sock_is_connected l1 ! i \<and>
            (\<exists>pre frame. fxs ! i =
               pre @ [SocketSend (feed_sock l1 ! i) frame, SocketClose (feed_sock l1 ! i)])) \<and>
         (\<not> feed_sock_is_connected l1 ! i \<and>
          (\<forall>t \<in> set (turns_of_feed i inputs).
              within_interval (feed_sock_last_connect_timestamp_ms l1 ! i) t) \<longrightarrow>
            trace_of_feed i fxss = [] \<and> slot_at l2 i = slot_at l1 i) \<and>
         (\<not> feed_sock_is_connected l ! i \<and> fxs ! i \<noteq> [] \<longrightarrow>
            feed_is_active settings ! i \<and>
            kWiFiTCPSocketReconnectIntervalMs
              < now_ms (envs i) - feed_sock_last_connect_timestamp_ms l ! i \<and>
            feed_sock_last_connect_timestamp_ms l1 ! i = now_ms (envs i) \<and>
            hd (fxs ! i) = SocketCreate (socket_ret (envs i))) \<and>
         (\<not> feed_sock_is_connected l ! i \<and> feed_is_active settings ! i \<and>
          kWiFiTCPSocketReconnectIntervalMs
            < now_ms (envs i) - feed_sock_last_connect_timestamp_ms l ! i \<longrightarrow>
            fxs ! i \<noteq> [] \<and> hd (fxs ! i) = SocketCreate (socket_ret (envs i))) \<and>
         (list_ex is_socket_create (fxs ! i) \<longrightarrow>
            \<not> feed_sock_is_connected l ! i \<and>
            feed_sock_last_connect_timestamp_ms l1 ! i = now_ms (envs i)) \<and>
         (\<not> list_ex is_socket_create (fxs ! i) \<longrightarrow>
            feed_sock_last_connect_timestamp_ms l1 ! i = feed_sock_last_connect_timestamp_ms l ! i)"
proof -
  from iteration_body [OF assms(1,3,2,4,5)] obtain k k' :: "'w word" where
    wf1: "locals_wf n l1" and
    step: "feed_slot_step valid codec (settings_at settings i) p (envs i) (slot_at l i, k) =
              (fxs ! i, slot_at l1 i, k')"
    by blast
  from iterations_slot [OF wf1 assms(2,6,7), of k'] obtain k'' where
    run: "slot_run valid codec (turns_of_feed i inputs) (slot_at l1 i, k') =
             (trace_of_feed i fxss, slot_at l2 i, k'')"
    by blast
  have s: "is_connected (slot_at l i) = feed_sock_is_connected l ! i"
    "is_connected (slot_at l1 i) = feed_sock_is_connected l1 ! i"
    "sock (slot_at l1 i) = feed_sock l1 ! i"
    "last_connect_timestamp_ms (slot_at l i) = feed_sock_last_connect_timestamp_ms l ! i"
    "last_connect_timestamp_ms (slot_at l1 i) = feed_sock_last_connect_timestamp_ms l1 ! i"
    "cfg_is_active (settings_at settings i) = feed_is_active settings ! i"
    by (simp_all add: slot_at_def settings_at_def)
  from slot_reconnect_rate_limited [OF step run] show ?thesis
    unfolding s .
qed

theorem feed_reconnect_rate_limited_witness:
  "fst (WiFiStationTask_iteration (\<lambda>p. p) (\<lambda>p rid. rid @ [if p then 1 else 0]) 2 two_feeds
          8000 (send_fails 8000) (one_packet :: (16, bool) CommsManager, feed0_connected)) ! 0 =
     [SocketSend 54 [1, 2, 1], SocketClose 54] \<and>
   trace_of_feed 0 (fst (WiFiStationTask_iterations (\<lambda>p. p)
          (\<lambda>p rid. rid @ [if p then 1 else 0]) 2
          (after_failure :: (Settings \<times> 32 word \<times> (nat \<Rightarrow> feed_env) \<times> (16, bool) CommsManager) list)
          (snd (snd (WiFiStationTask_iteration (\<lambda>p. p) (\<lambda>p rid. rid @ [if p then 1 else 0]) 2
             two_feeds 8000 (send_fails 8000)
             (one_packet :: (16, bool) CommsManager, feed0_connected)))))) = []"
proof -
  let ?codec = "\<lambda>(p :: bool) (rid :: 8 word list). rid @ [if p then 1 else 0]"
  let ?c = "one_packet :: (16, bool) CommsManager"
  let ?later = "after_failure :: (Settings \<times> 32 word \<times> (nat \<Rightarrow> feed_env) \<times> (16, bool) CommsManager) list"
  let ?it = "WiFiStationTask_iteration (\<lambda>p. p) ?codec 2 two_feeds 8000 (send_fails 8000)
      (?c, feed0_connected)"
  let ?l1 = "snd (snd ?it)"
  let ?run = "WiFiStationTask_iterations (\<lambda>p. p) ?codec 2 ?later ?l1"
  have wf: "locals_wf 2 feed0_connected" by (simp add: locals_wf_def feed0_connected_def)
  have i: "(0::nat) < 2" by simp
  have len: "length (feed_mps_counter ?c) = 2"
    by (simp add: one_packet_def forwarder_running_def boot_manager_def)
  have q: "items (wifi_sta_decoded_transponder_packet_queue ?c) = True # []"
    by (simp add: one_packet_def)
  have it: "?it = (fst ?it, fst (snd ?it), ?l1)" by simp
  have lens: "\<forall>(settings, timestamp_ms, envs, c) \<in> set ?later. length (feed_mps_counter c) = 2"
    by (simp add: after_failure_def one_packet_def forwarder_running_def boot_manager_def)
  have run: "?run = (fst ?run, snd ?run)" by simp
  have fx: "fst ?it ! 0 = [SocketSend 54 [1, 2, 1], SocketClose 54]" by code_simp
  have sent: "list_ex is_socket_send (fst ?it ! 0)" unfolding fx by simp
  have failed: "send_ret (send_fails 8000 0) < 0" by (simp add: send_fails_def)
  have start: "feed_sock_last_connect_timestamp_ms ?l1 ! 0 = 6000" by code_simp
  have within: "\<forall>t \<in> set (turns_of_feed 0 ?later).
      within_interval (feed_sock_last_connect_timestamp_ms ?l1 ! 0) t"
    unfolding start by code_simp
  from feed_reconnect_rate_limited [OF wf i len q it lens run] sent failed within
  have "trace_of_feed 0 (fst ?run) = []" by blast
  with fx show ?thesis by simp
qed

text \<open>
  C2 as stated fails on a feed connected at 6000 whose send fails at 20000: the socket
  is closed, and 1 ms later, long before 5000 ms have passed since the failure, the next
  packet finds the feed connected again and is sent.
\<close>

theorem send_right_after_failed_send:
  "map (\<lambda>(settings, timestamp_ms, envs, c). (timestamp_ms, send_ret (envs 0)))
     (long_connected :: (Settings \<times> 32 word \<times> (nat \<Rightarrow> feed_env) \<times> (16, bool) CommsManager) list) =
     [(20000, - 1), (20001, 4)] \<and>
   feed_sock_last_connect_timestamp_ms feed0_connected ! 0 = 6000 \<and>
   map (\<lambda>fxs. fxs ! 0) (fst (WiFiStationTask_iterations (\<lambda>p. p)
       (\<lambda>p rid. rid @ [if p then 1 else 0]) 2
       (long_connected :: (Settings \<times> 32 word \<times> (nat \<Rightarrow> feed_env) \<times> (16, bool) CommsManager) list)
       feed0_connected)) =
     [[SocketSend 54 [1, 2, 1], SocketClose 54],
      [SocketCreate 55, SocketConnect 55 (Literal ''10.0.0.7'') 30004, SocketSend 55 [1, 2, 1]]]"
  by code_simp

section \<open>The sockets of a feed\<close>

lemma open_sockets_append: "open_sockets (a @ b) os = open_sockets b (open_sockets a os)"
  by (induction a arbitrary: os) auto

lemma at_most_one_open_append:
  "at_most_one_open (a @ b) os = (at_most_one_open a os \<and> at_most_one_open b (open_sockets a os))"
proof (induction a arbitrary: os)
  case Nil
  then show ?case by (cases b) auto
next
  case (Cons e a)
  then show ?case by auto
qed

lemma at_most_one_open_take:
  "at_most_one_open fx os \<Longrightarrow> length (open_sockets (take k fx) os) \<le> 1"
proof (induction fx arbitrary: k os)
  case Nil
  then show ?case by simp
next
  case (Cons e fx)
  then show ?case by (cases k) auto
qed

lemma send_packet_sockets:
  assumes "send_packet valid codec cfg p env (sl, cnt) = (fx, sl', cnt')"
    and "is_connected sl" and "os = [sock sl]"
  shows "at_most_one_open fx os \<and> slot_ok sl' (open_sockets fx os)"
  using send_packet_shape [OF assms(1)] assms(2,3) by (auto simp: slot_ok_def)

lemma open_feed_socket_sockets:
  assumes "open_feed_socket cfg env sl = (fx, sl', go)" and "\<not> is_connected sl"
    and "socket_ret env \<noteq> 0"
  shows "at_most_one_open fx [] \<and> slot_ok sl' (open_sockets fx []) \<and> is_connected sl' = go"
  using assms
  by (auto simp: open_feed_socket_def connect_to_def Let_def slot_ok_def
        split: if_splits option.splits)

lemma step_sockets:
  assumes "feed_slot_step valid codec cfg p env (sl, cnt) = (fx, sl', cnt')"
    and "slot_ok sl os" and "socket_ret env \<noteq> 0"
  shows "at_most_one_open fx os \<and> slot_ok sl' (open_sockets fx os)"
proof (cases "cfg_is_active cfg")
  case False
  with assms(1,2) show ?thesis by (auto simp: feed_slot_step_def slot_ok_def split: if_splits)
next
  case True
  show ?thesis
  proof (cases "is_connected sl")
    case c: True
    with True assms(1) have s: "send_packet valid codec cfg p env (sl, cnt) = (fx, sl', cnt')"
      by (simp add: feed_slot_step_def)
    have "os = [sock sl]" using assms(2) c by (simp add: slot_ok_def)
    from send_packet_sockets [OF s c this] show ?thesis .
  next
    case c: False
    have os: "os = []" using assms(2) c by (simp add: slot_ok_def)
    obtain fx1 sl1 go where o: "open_feed_socket cfg env sl = (fx1, sl1, go)"
      by (cases "open_feed_socket cfg env sl") auto
    note a = open_feed_socket_sockets [OF o c assms(3)]
    show ?thesis
    proof (cases go)
      case False
      with True c o assms(1) have "fx = fx1" "sl' = sl1" by (simp_all add: feed_slot_step_def)
      with a os show ?thesis by simp
    next
      case g: True
      obtain fx2 where s: "send_packet valid codec cfg p env (sl1, cnt) = (fx2, sl', cnt')"
        and fx: "fx = fx1 @ fx2"
        using True c o g assms(1) by (auto simp: feed_slot_step_def split: prod.splits)
      have c1: "is_connected sl1" using a g by simp
      have o1: "open_sockets fx1 [] = [sock sl1]" using a c1 by (simp add: slot_ok_def)
      from send_packet_sockets [OF s c1 o1] a os fx o1 show ?thesis
        by (simp add: at_most_one_open_append open_sockets_append)
    qed
  qed
qed

lemma run_sockets:
  "slot_ok sl os \<Longrightarrow> \<forall>t \<in> set ts. socket_never_zero t \<Longrightarrow>
   slot_run valid codec ts (sl, cnt) = (fx, sl', cnt') \<Longrightarrow>
   at_most_one_open fx os \<and> slot_ok sl' (open_sockets fx os)"
proof (induction ts arbitrary: sl os cnt fx)
  case Nil
  then show ?case by (auto simp: slot_ok_def)
next
  case (Cons t ts)
  obtain fx1 sl1 cnt1 where one: "slot_turn valid codec t (sl, cnt) = (fx1, sl1, cnt1)"
    by (cases "slot_turn valid codec t (sl, cnt)") auto
  obtain fx2 where rest: "slot_run valid codec ts (sl1, cnt1) = (fx2, sl', cnt')"
    and fx: "fx = fx1 @ fx2"
    using Cons.prems(3) one by (auto split: prod.splits)
  have first: "at_most_one_open fx1 os \<and> slot_ok sl1 (open_sockets fx1 os)"
  proof (cases t)
    case StatsUpdate
    with one Cons.prems(1) show ?thesis by (auto simp: slot_ok_def)
  next
    case NoPacket
    with one Cons.prems(1) show ?thesis by (auto simp: slot_ok_def)
  next
    case (Packet cfg p env)
    with Cons.prems(2) have "socket_ret env \<noteq> 0" by simp
    from step_sockets [OF _ Cons.prems(1) this] one Packet show ?thesis by simp
  qed
  from Cons.IH [OF _ _ rest] first Cons.prems(2)
  have "at_most_one_open fx2 (open_sockets fx1 os) \<and>
        slot_ok sl' (open_sockets fx2 (open_sockets fx1 os))" by simp
  with first fx show ?case by (simp add: at_most_one_open_append open_sockets_append)
qed

lemma disconnecting_step_closes:
  assumes "feed_slot_step valid codec cfg p env (sl, cnt) = (fx, sl', cnt')"
    and "is_connected sl" and "\<not> is_connected sl'"
  shows "fx \<noteq> [] \<and> last fx = SocketClose (sock sl)"
proof (cases "cfg_is_active cfg")
  case False
  with assms show ?thesis by (auto simp: feed_slot_step_def split: if_splits)
next
  case True
  with assms(1,2) have "send_packet valid codec cfg p env (sl, cnt) = (fx, sl', cnt')"
    by (simp add: feed_slot_step_def)
  from send_packet_shape [OF this] assms(2,3) show ?thesis by auto
qed

lemma inactive_step:
  assumes "feed_slot_step valid codec cfg p env (sl, cnt) = (fx, sl', cnt')"
    and "\<not> cfg_is_active cfg"
  shows "\<not> list_ex is_socket_send fx \<and> \<not> is_connected sl' \<and>
         fx = (if is_connected sl then [SocketClose (sock sl)] else [])"
  using assms by (auto simp: feed_slot_step_def split: if_splits)

text \<open>Leaving the task, feed by feed.\<close>

lemma close_all_sockets_slot:
  "locals_wf n l \<Longrightarrow> i + k \<le> n \<Longrightarrow> close_all_sockets k i l = (fxs, l') \<Longrightarrow>
   length fxs = k \<and> locals_wf n l' \<and>
   (\<forall>j < n. if i \<le> j \<and> j < i + k
      then fxs ! (j - i) =
             (if feed_sock_is_connected l ! j then [SocketClose (feed_sock l ! j)] else []) \<and>
           \<not> feed_sock_is_connected l' ! j
      else slot_at l' j = slot_at l j)"
proof (induction k arbitrary: i l fxs)
  case 0
  then show ?case by auto
next
  case (Suc k)
  define l1 where "l1 = (if feed_sock_is_connected l ! i
      then l\<lparr>feed_sock_is_connected := (feed_sock_is_connected l)[i := False]\<rparr> else l)"
  define fx where "fx = (if feed_sock_is_connected l ! i then [SocketClose (feed_sock l ! i)] else [])"
  obtain fxs1 where r: "close_all_sockets k (Suc i) l1 = (fxs1, l')" and fxs: "fxs = fx # fxs1"
    using Suc.prems(3) by (auto simp: l1_def fx_def split: if_splits prod.splits)
  have wf1: "locals_wf n l1" using Suc.prems(1) by (simp add: l1_def locals_wf_def)
  have le1: "Suc i + k \<le> n" using Suc.prems(2) by simp
  have i: "i < n" using Suc.prems(2) by simp
  have at1: "\<And>j. j < n \<Longrightarrow> j \<noteq> i \<Longrightarrow> slot_at l1 j = slot_at l j"
    by (simp add: l1_def slot_at_def)
  have conn1: "\<not> feed_sock_is_connected l1 ! i"
    using i Suc.prems(1) by (simp add: l1_def locals_wf_def)
  have keep: "\<And>j. j < n \<Longrightarrow> j \<noteq> i \<Longrightarrow>
      feed_sock_is_connected l1 ! j = feed_sock_is_connected l ! j \<and> feed_sock l1 ! j = feed_sock l ! j"
    by (simp add: l1_def)
  note ih = Suc.IH [OF wf1 le1 r]
  have "length fxs = Suc k" using ih fxs by simp
  moreover have "locals_wf n l'" using ih by simp
  moreover have "if i \<le> j \<and> j < i + Suc k
      then fxs ! (j - i) =
             (if feed_sock_is_connected l ! j then [SocketClose (feed_sock l ! j)] else []) \<and>
           \<not> feed_sock_is_connected l' ! j
      else slot_at l' j = slot_at l j" if j: "j < n" for j
  proof -
    from ih j have rest: "if Suc i \<le> j \<and> j < Suc i + k
      then fxs1 ! (j - Suc i) =
             (if feed_sock_is_connected l1 ! j then [SocketClose (feed_sock l1 ! j)] else []) \<and>
           \<not> feed_sock_is_connected l' ! j
      else slot_at l' j = slot_at l1 j"
      by blast
    consider (lt) "j < i" | (eq) "j = i" | (gt) "i < j" by linarith
    then show ?thesis
    proof cases
      case lt
      with rest at1 [OF j] show ?thesis by (auto split: if_splits)
    next
      case eq
      with rest have "slot_at l' i = slot_at l1 i" by (auto split: if_splits)
      then have "feed_sock_is_connected l' ! i = feed_sock_is_connected l1 ! i"
        by (simp add: slot_at_def)
      with eq conn1 fxs show ?thesis by (simp add: fx_def)
    next
      case gt
      then have "fxs ! (j - i) = fxs1 ! (j - Suc i)" using fxs by (simp add: nth_Cons')
      with gt rest keep [OF j] at1 [OF j] show ?thesis by (auto split: if_splits)
    qed
  qed
  ultimately show ?case by blast
qed


text \<open>
  C8, as the code has it, for a feed \<open>i\<close> whose flag and open sockets agree to begin
  with (as they do when the task starts: not connected, nothing open), over any
  iterations of the task in which \<open>socket\<close> does not return the descriptor 0 for
  the feed. At every point of the feed's trace at most one socket is open for it, and
  after the iterations the flag and the open sockets agree again. In the next run of
  the loop body for the feed: \<open>socket\<close> is called only if the feed is marked
  disconnected and is active; if the feed goes from connected to disconnected, the last
  thing done is closing its socket; if the feed is configured inactive, nothing is sent,
  and afterwards it is marked disconnected with no socket open. An iteration that finds
  no packet within the timeout does nothing for any feed. When the task leaves its loop,
  the feed's socket, if open, is closed.
\<close>

theorem feed_sockets_one_at_a_time:
  fixes inputs :: "(Settings \<times> 32 word \<times> (nat \<Rightarrow> feed_env) \<times> ('w::len, 'p) CommsManager) list"
  assumes "locals_wf n l" and "i < n"
    and "slot_ok (slot_at l i) os"
    and "\<forall>(settings, timestamp_ms, envs, c) \<in> set inputs. length (feed_mps_counter c) = n"
    and "\<forall>t \<in> set (turns_of_feed i inputs). socket_never_zero t"
    and "WiFiStationTask_iterations valid codec n inputs l = (fxss, l')"
  shows "(\<forall>k. length (open_sockets (take k (trace_of_feed i fxss)) os) \<le> 1) \<and>
         slot_ok (slot_at l' i) (open_sockets (trace_of_feed i fxss) os) \<and>
         (\<forall>cfg p env (cnt :: 'w word) fx1 sl1 cnt1.
            feed_slot_step valid codec cfg p env (slot_at l' i, cnt) = (fx1, sl1, cnt1) \<longrightarrow>
              (list_ex is_socket_create fx1 \<longrightarrow>
                 \<not> feed_sock_is_connected l' ! i \<and> cfg_is_active cfg) \<and>
              (feed_sock_is_connected l' ! i \<and> \<not> is_connected sl1 \<longrightarrow>
                 fx1 \<noteq> [] \<and> last fx1 = SocketClose (feed_sock l' ! i)) \<and>
              (\<not> cfg_is_active cfg \<longrightarrow>
                 \<not> list_ex is_socket_send fx1 \<and> \<not> is_connected sl1 \<and>
                 open_sockets fx1 (open_sockets (trace_of_feed i fxss) os) = [])) \<and>
         (\<forall>settings timestamp_ms envs (c :: ('w, 'p) CommsManager).
            items (wifi_sta_decoded_transponder_packet_queue c) = [] \<longrightarrow>
              WiFiStationTask_iteration valid codec n settings timestamp_ms envs (c, l') =
                ([], update_feed_stats timestamp_ms c, l')) \<and>
         (\<forall>fxs l''.
            close_all_sockets n 0 l' = (fxs, l'') \<longrightarrow>
              open_sockets (fxs ! i) (open_sockets (trace_of_feed i fxss) os) = [] \<and>
              \<not> feed_sock_is_connected l'' ! i)"
proof -
  from iterations_slot [OF assms(1,2,4,6), of "0 :: 'w word"] obtain cnt' where
    wf: "locals_wf n l'" and
    run: "slot_run valid codec (turns_of_feed i inputs) (slot_at l i, 0 :: 'w word) =
             (trace_of_feed i fxss, slot_at l' i, cnt')"
    by blast
  from run_sockets [OF assms(3,5) run] have one: "at_most_one_open (trace_of_feed i fxss) os"
    and ok: "slot_ok (slot_at l' i) (open_sockets (trace_of_feed i fxss) os)" by simp_all
  have points: "\<forall>k. length (open_sockets (take k (trace_of_feed i fxss)) os) \<le> 1"
    using at_most_one_open_take [OF one] by blast
  have conn: "is_connected (slot_at l' i) = feed_sock_is_connected l' ! i"
    and sk: "sock (slot_at l' i) = feed_sock l' ! i"
    by (simp_all add: slot_at_def)
  have body: "(list_ex is_socket_create fx1 \<longrightarrow>
                 \<not> feed_sock_is_connected l' ! i \<and> cfg_is_active cfg) \<and>
              (feed_sock_is_connected l' ! i \<and> \<not> is_connected sl1 \<longrightarrow>
                 fx1 \<noteq> [] \<and> last fx1 = SocketClose (feed_sock l' ! i)) \<and>
              (\<not> cfg_is_active cfg \<longrightarrow>
                 \<not> list_ex is_socket_send fx1 \<and> \<not> is_connected sl1 \<and>
                 open_sockets fx1 (open_sockets (trace_of_feed i fxss) os) = [])"
    if s: "feed_slot_step valid codec cfg p env (slot_at l' i, cnt) = (fx1, sl1, cnt1)"
    for cfg p env and cnt :: "'w word" and fx1 sl1 cnt1
  proof -
    have a: "\<not> feed_sock_is_connected l' ! i \<and> cfg_is_active cfg" if "list_ex is_socket_create fx1"
      using socket_created_when_disconnected [OF s that] conn by simp
    have b: "fx1 \<noteq> [] \<and> last fx1 = SocketClose (feed_sock l' ! i)"
      if "feed_sock_is_connected l' ! i" "\<not> is_connected sl1"
      using disconnecting_step_closes [OF s _ that(2)] that(1) conn sk by simp
    have c: "\<not> list_ex is_socket_send fx1 \<and> \<not> is_connected sl1 \<and>
                 open_sockets fx1 (open_sockets (trace_of_feed i fxss) os) = []"
      if "\<not> cfg_is_active cfg"
      using inactive_step [OF s that] ok by (auto simp: slot_ok_def split: if_splits)
    from a b c show ?thesis by blast
  qed
  have idle: "WiFiStationTask_iteration valid codec n settings timestamp_ms envs (c, l') =
                ([], update_feed_stats timestamp_ms c, l')"
    if "items (wifi_sta_decoded_transponder_packet_queue c) = []"
    for settings timestamp_ms envs and c :: "('w, 'p) CommsManager"
    using iteration_without_packet [OF that] .
  have leave: "open_sockets (fxs ! i) (open_sockets (trace_of_feed i fxss) os) = [] \<and>
              \<not> feed_sock_is_connected l'' ! i"
    if c: "close_all_sockets n 0 l' = (fxs, l'')" for fxs l''
  proof -
    from close_all_sockets_slot [OF wf _ c] assms(2)
    have f: "fxs ! i = (if feed_sock_is_connected l' ! i then [SocketClose (feed_sock l' ! i)] else [])"
      and n: "\<not> feed_sock_is_connected l'' ! i" by auto
    from f ok conn sk have "open_sockets (fxs ! i) (open_sockets (trace_of_feed i fxss) os) = []"
      by (auto simp: slot_ok_def split: if_splits)
    with n show ?thesis by simp
  qed
  from points ok body idle leave show ?thesis by blast
qed

theorem feed_sockets_one_at_a_time_witness:
  "(\<forall>k. length (open_sockets (take k (trace_of_feed 0 (fst (WiFiStationTask_iterations (\<lambda>p. p)
       (\<lambda>p rid. rid @ [if p then 1 else 0]) 2
       (busy_day :: (Settings \<times> 32 word \<times> (nat \<Rightarrow> feed_env) \<times> (16, bool) CommsManager) list)
       fresh_arrays)))) []) \<le> 1) \<and>
   trace_of_feed 0 (fst (WiFiStationTask_iterations (\<lambda>p. p)
       (\<lambda>p rid. rid @ [if p then 1 else 0]) 2
       (busy_day :: (Settings \<times> 32 word \<times> (nat \<Rightarrow> feed_env) \<times> (16, bool) CommsManager) list)
       fresh_arrays)) =
     [SocketCreate 55, SocketConnect 55 (Literal ''10.0.0.7'') 30004, SocketSend 55 [1, 2, 1],
      SocketSend 55 [1, 2, 1], SocketClose 55,
      SocketCreate 55, SocketConnect 55 (Literal ''10.0.0.7'') 30004, SocketSend 55 [1, 2, 1],
      SocketClose 55]"
proof -
  let ?codec = "\<lambda>(p :: bool) (rid :: 8 word list). rid @ [if p then 1 else 0]"
  let ?day = "busy_day :: (Settings \<times> 32 word \<times> (nat \<Rightarrow> feed_env) \<times> (16, bool) CommsManager) list"
  let ?run = "WiFiStationTask_iterations (\<lambda>p. p) ?codec 2 ?day fresh_arrays"
  have wf: "locals_wf 2 fresh_arrays" by (simp add: locals_wf_def fresh_arrays_def)
  have i: "(0::nat) < 2" by simp
  have ok: "slot_ok (slot_at fresh_arrays 0) []"
    by (simp add: slot_ok_def slot_at_def fresh_arrays_def)
  have len: "\<forall>(settings, timestamp_ms, envs, c) \<in> set ?day. length (feed_mps_counter c) = 2"
    by (simp add: busy_day_def one_packet_def forwarder_running_def boot_manager_def)
  have nz: "\<forall>t \<in> set (turns_of_feed 0 ?day). socket_never_zero t"
    by code_simp
  have r: "?run = (fst ?run, snd ?run)" by simp
  have fx: "trace_of_feed 0 (fst ?run) =
     [SocketCreate 55, SocketConnect 55 (Literal ''10.0.0.7'') 30004, SocketSend 55 [1, 2, 1],
      SocketSend 55 [1, 2, 1], SocketClose 55,
      SocketCreate 55, SocketConnect 55 (Literal ''10.0.0.7'') 30004, SocketSend 55 [1, 2, 1],
      SocketClose 55]" by code_simp
  from feed_sockets_one_at_a_time [OF wf i ok len nz r]
  have "\<forall>k. length (open_sockets (take k (trace_of_feed 0 (fst ?run))) []) \<le> 1" by blast
  with fx show ?thesis by blast
qed

text \<open>
  C8 as stated fails on a turn of the task in which no packet comes within the timeout:
  feed 0 is connected and has just been configured inactive; after the turn nothing was
  closed and the feed is still marked connected.
\<close>

theorem inactive_feed_stays_open_without_packet:
  "WiFiStationTask_step (\<lambda>p. p) (\<lambda>p rid. rid @ [if p then 1 else 0]) 2 feeds_switched_off 500
      (all_well 500)
      (forwarder_running :: (16, bool) CommsManager, \<lparr>phase = Running, locals = feed0_connected\<rparr>) =
     ([], forwarder_running, \<lparr>phase = Running, locals = feed0_connected\<rparr>) \<and>
   feed_sock_is_connected feed0_connected ! 0 \<and> \<not> feed_is_active feeds_switched_off ! 0 \<and>
   items (wifi_sta_decoded_transponder_packet_queue
            (forwarder_running :: (16, bool) CommsManager)) = []"
  by code_simp

section \<open>Writing a register and reading it back\<close>

lemma stored_store: "fits n a v \<Longrightarrow> stored a (store a v od) = v"
  by (cases a; cases v) auto

text \<open>
  C9, against the transport modelled from the spec. For every address and value, with
  or without acknowledgment: when the write reports success and the read that follows it
  reports success, the value read is the value written. In the tests of
  test\_spi\_coprocessor.cc, no \<open>EXPECT_EQ\<close> fails, whatever the exchanges do, and a
  test whose exchanges all go through and are confirmed passes.
\<close>

theorem write_then_read_round_trip:
  assumes "Write n x1 a v require_ack od = (True, od')"
    and "Read x2 a v0 od' = (v', True)"
  shows "v' = v \<and>
         test_WriteReadScratch n require_ack x3 x4 od \<noteq> ExpectFailed \<and>
         test_ReadWriteReadRewriteRereadBig n require_ack x3 x4 x5 x6 u od \<noteq> ExpectFailed \<and>
         (reached_remote x3 \<and> remote_confirmed x3 \<and> reached_remote x4 \<longrightarrow>
            test_WriteReadScratch n require_ack x3 x4 od = Passed)"
proof -
  from assms(1) have f: "fits n a v" and o: "od' = store a v od"
    by (auto simp: Write_def split: if_splits)
  from assms(2) have "v' = stored a od'"
    by (auto simp: Read_def split: if_splits)
  with f o have rt: "v' = v" by (simp add: stored_store)
  have s: "test_WriteReadScratch n require_ack x3 x4 od \<noteq> ExpectFailed"
    by (auto simp: test_WriteReadScratch_def Write_def Read_def Let_def
          split: if_splits prod.splits bool.splits)
  have b: "test_ReadWriteReadRewriteRereadBig n require_ack x3 x4 x5 x6 u od \<noteq> ExpectFailed"
    by (auto simp: test_ReadWriteReadRewriteRereadBig_def Write_def Read_def settings_pattern_def
          split: if_splits prod.splits bool.splits)
  have p: "test_WriteReadScratch n require_ack x3 x4 od = Passed"
    if "reached_remote x3 \<and> remote_confirmed x3 \<and> reached_remote x4"
    using that by (simp add: test_WriteReadScratch_def Write_def Read_def Let_def)
  from rt s b p show ?thesis by blast
qed

theorem write_then_read_round_trip_witness:
  "fst (Read goes_through kAddrSettingsStruct (SettingsValue [])
          (snd (Write 4 goes_through kAddrSettingsStruct (SettingsValue (settings_pattern 4))
             False zeroed))) = SettingsValue [0, 1, 2, 3] \<and>
   test_WriteReadScratch 4 False goes_through goes_through zeroed = Passed"
proof -
  let ?w = "Write 4 goes_through kAddrSettingsStruct (SettingsValue (settings_pattern 4)) False zeroed"
  let ?r = "Read goes_through kAddrSettingsStruct (SettingsValue []) (snd ?w)"
  have w: "?w = (True, snd ?w)"
    by (simp add: Write_def goes_through_def settings_pattern_def)
  have r: "?r = (fst ?r, True)"
    by (simp add: Read_def goes_through_def)
  have g: "reached_remote goes_through \<and> remote_confirmed goes_through \<and> reached_remote goes_through"
    by (simp add: goes_through_def)
  have pat: "settings_pattern 4 = [0, 1, 2, 3]" by code_simp
  from write_then_read_round_trip [OF w r, of goes_through goes_through] g pat
  show ?thesis by simp
qed

end
